theory Spec2Isabelle
  imports Complex_Main "HOL-Library.Log_Nat"
begin

section \<open>Data model (src/types/index.ts)\<close>

text \<open>
  JavaScript numbers are modelled as exact reals (integers where the code only ever stores
  the result of \<^verbatim>\<open>Math.floor\<close>).  The rounding of IEEE doubles is modelled where
  a property depends on it, in the double-precision form of the font-size search; NaN
  and the infinities are outside the model.  JavaScript strings are modelled as lists of
  characters of the Basic Latin block.
\<close>

datatype textDecoration = DecorationNone | Underline | LineThrough | Overline

datatype textTransform = TransformNone | Uppercase | Lowercase | Capitalize

record TextStyle =
  fontFamily :: string
  fontSize :: real
  fontWeight :: string
  fontStyle :: string
  color :: string
  textDecoration :: textDecoration
  textTransform :: textTransform
  letterSpacing :: real
  lineHeight :: real
  textShadow :: string
  opacity :: real

record TextArea =
  area_id :: string
  area_x :: real
  area_y :: real
  area_width :: real
  area_height :: real
  area_style :: TextStyle

definition DEFAULT_TEXT_STYLE :: TextStyle where
  "DEFAULT_TEXT_STYLE =
     \<lparr> fontFamily = ''Arial'', fontSize = 24, fontWeight = ''normal'', fontStyle = ''normal'',
       color = ''#000000'', textDecoration = DecorationNone, textTransform = TransformNone,
       letterSpacing = 0, lineHeight = 12 / 10, textShadow = ''none'', opacity = 1 \<rparr>"

section \<open>The 2D drawing context\<close>

text \<open>
  The part of \<^verbatim>\<open>CanvasRenderingContext2D\<close> that canvasUtils.ts touches: the
  drawing state that \<^verbatim>\<open>save\<close>/\<^verbatim>\<open>restore\<close> push and pop, the current path,
  and the paint operations issued so far, each paint recorded with the drawing state
  in force when it was issued.
\<close>

record gstate =
  g_globalAlpha :: real
  g_font :: string
  g_fillStyle :: string
  g_strokeStyle :: string
  g_lineWidth :: real
  g_textAlign :: string
  g_textBaseline :: string
  g_shadowOffsetX :: real
  g_shadowOffsetY :: real
  g_shadowBlur :: real
  g_shadowColor :: string

datatype path_cmd = MoveTo real real | LineTo real real

datatype image = Image string

datatype paint =
    DrawImage image real real real real
  | FillText gstate string real real
  | Stroke gstate "path_cmd list"

record ctx =
  c_state :: gstate
  c_stack :: "gstate list"
  c_path :: "path_cmd list"
  c_painted :: "paint list"

definition initial_gstate :: gstate where
  "initial_gstate =
     \<lparr> g_globalAlpha = 1, g_font = ''10px sans-serif'', g_fillStyle = ''#000000'',
       g_strokeStyle = ''#000000'', g_lineWidth = 1, g_textAlign = ''start'',
       g_textBaseline = ''alphabetic'', g_shadowOffsetX = 0, g_shadowOffsetY = 0,
       g_shadowBlur = 0, g_shadowColor = ''rgba(0, 0, 0, 0)'' \<rparr>"

definition fresh_ctx :: ctx where
  "fresh_ctx = \<lparr> c_state = initial_gstate, c_stack = [], c_path = [], c_painted = [] \<rparr>"

definition ctx_save :: "ctx \<Rightarrow> ctx" where
  "ctx_save c = c\<lparr> c_stack := c_state c # c_stack c \<rparr>"

definition ctx_restore :: "ctx \<Rightarrow> ctx" where
  "ctx_restore c =
     (case c_stack c of [] \<Rightarrow> c | g # gs \<Rightarrow> c\<lparr> c_state := g, c_stack := gs \<rparr>)"

definition set_font :: "string \<Rightarrow> ctx \<Rightarrow> ctx" where
  "set_font f c = c\<lparr> c_state := (c_state c)\<lparr> g_font := f \<rparr> \<rparr>"

definition fillText :: "string \<Rightarrow> real \<Rightarrow> real \<Rightarrow> ctx \<Rightarrow> ctx" where
  "fillText t px py c = c\<lparr> c_painted := c_painted c @ [FillText (c_state c) t px py] \<rparr>"

text \<open>
  \<^verbatim>\<open>ctx.measureText(t).width\<close> is a capability of the host: a function of the
  current font string and the text, passed to every function below as \<open>mt\<close>.
\<close>

type_synonym measure_fn = "string \<Rightarrow> string \<Rightarrow> real"

definition measureText :: "measure_fn \<Rightarrow> ctx \<Rightarrow> string \<Rightarrow> real" where
  "measureText mt c t = mt (g_font (c_state c)) t"

section \<open>Characters and strings\<close>

definition is_digit :: "char \<Rightarrow> bool" where
  "is_digit ch = (ch \<in> set ''0123456789'')"

text \<open>The regular-expression class \<^verbatim>\<open>\w\<close>: \<^verbatim>\<open>[A-Za-z0-9_]\<close>.\<close>

definition is_word_char :: "char \<Rightarrow> bool" where
  "is_word_char ch =
     (ch \<in> set ''abcdefghijklmnopqrstuvwxyzABCDEFGHIJKLMNOPQRSTUVWXYZ0123456789_'')"

text \<open>
  White space of the Basic Latin block (tab, line feed, vertical tab, form feed, carriage
  return, space): what \<^verbatim>\<open>\s\<close> matches and \<^verbatim>\<open>trim\<close> strips there.  The
  line terminators among them are the characters \<^verbatim>\<open>.\<close> does not match.
\<close>

definition is_space :: "char \<Rightarrow> bool" where
  "is_space ch = (ch \<in> {CHR 0x09, CHR 0x0A, CHR 0x0B, CHR 0x0C, CHR 0x0D, CHR 0x20})"

definition is_line_terminator :: "char \<Rightarrow> bool" where
  "is_line_terminator ch = (ch \<in> {CHR 0x0A, CHR 0x0D})"

definition toUpperCase_char :: "char \<Rightarrow> char" where
  "toUpperCase_char ch =
     (case map_of (zip ''abcdefghijklmnopqrstuvwxyz'' ''ABCDEFGHIJKLMNOPQRSTUVWXYZ'') ch of
        Some u \<Rightarrow> u | None \<Rightarrow> ch)"

definition toLowerCase_char :: "char \<Rightarrow> char" where
  "toLowerCase_char ch =
     (case map_of (zip ''ABCDEFGHIJKLMNOPQRSTUVWXYZ'' ''abcdefghijklmnopqrstuvwxyz'') ch of
        Some l \<Rightarrow> l | None \<Rightarrow> ch)"

definition toUpperCase :: "string \<Rightarrow> string" where
  "toUpperCase s = map toUpperCase_char s"

definition toLowerCase :: "string \<Rightarrow> string" where
  "toLowerCase s = map toLowerCase_char s"

definition trim :: "string \<Rightarrow> string" where
  "trim s = rev (dropWhile is_space (rev (dropWhile is_space s)))"

definition digit_val :: "char \<Rightarrow> nat" where
  "digit_val ch = length (takeWhile (\<lambda>d. d \<noteq> ch) ''0123456789'')"

definition parse_nat :: "string \<Rightarrow> nat" where
  "parse_nat ds = foldl (\<lambda>n ch. 10 * n + digit_val ch) 0 ds"

text \<open>
  \<^verbatim>\<open>parseInt\<close> on a string of the shape \<^verbatim>\<open>-?\d+\<close>, the only shape the
  capture groups of the shadow pattern can have.
\<close>

definition parseInt :: "string \<Rightarrow> int" where
  "parseInt s = (case s of CHR ''-'' # ds \<Rightarrow> - int (parse_nat ds) | _ \<Rightarrow> int (parse_nat s))"

section \<open>buildFontString\<close>

definition digit_char :: "nat \<Rightarrow> char" where
  "digit_char d = ''0123456789'' ! d"

fun show_nat :: "nat \<Rightarrow> string" where
  "show_nat n = (if n < 10 then [digit_char n] else show_nat (n div 10) @ [digit_char (n mod 10)])"

declare show_nat.simps [simp del]

definition show_int :: "int \<Rightarrow> string" where
  "show_int i = (if i < 0 then CHR ''-'' # show_nat (nat (- i)) else show_nat (nat i))"

text \<open>
  \<^verbatim>\<open>`${style.fontStyle} ${style.fontWeight} ${fontSize}px ${style.fontFamily}`\<close>.
  Every call site passes an integer font size (4 or a \<^verbatim>\<open>Math.floor\<close> result).
\<close>

definition buildFontString :: "TextStyle \<Rightarrow> int \<Rightarrow> string" where
  "buildFontString style fs =
     fontStyle style @ '' '' @ fontWeight style @ '' '' @ show_int fs @ ''px '' @ fontFamily style"

section \<open>Double-precision arithmetic\<close>

text \<open>
  The numbers of the program are IEEE 754 binary64 values, and every arithmetic operation
  returns the representable value nearest to the exact result, ties going to the even
  significand.  \<open>f64 x\<close> is that value for a real \<open>x\<close>: with
  \<open>2 ^ e \<le> \<bar>x\<bar> < 2 ^ (e + 1)\<close>, \<open>x\<close> is rounded to a multiple of \<open>2 ^ (e - 52)\<close>, so that the
  significand has 53 bits.  The exponent range is not bounded here: overflow to an
  infinity, subnormal numbers and NaN are outside the model.
\<close>

definition pow2 :: "int \<Rightarrow> real" where
  "pow2 k = (if 0 \<le> k then 2 ^ nat k else 1 / 2 ^ nat (- k))"

text \<open>The binary exponent of a positive real: \<open>pow2 (expo a) \<le> a < pow2 (expo a + 1)\<close>.\<close>

definition expo :: "real \<Rightarrow> int" where
  "expo a = (if 1 \<le> a then bitlen \<lfloor>a\<rfloor> - 1 else - bitlen (\<lceil>1 / a\<rceil> - 1))"

definition round_even :: "real \<Rightarrow> int" where
  "round_even r =
     (let f = \<lfloor>r\<rfloor>; d = r - real_of_int f
      in if d < 1 / 2 then f else if 1 / 2 < d then f + 1 else if even f then f else f + 1)"

definition f64 :: "real \<Rightarrow> real" where
  "f64 x =
     (if x = 0 then 0
      else let a = \<bar>x\<bar>; q = pow2 (expo a - 52)
           in sgn x * (real_of_int (round_even (a / q)) * q))"

section \<open>calculateOptimalFontSize\<close>

text \<open>
  The loop state is \<open>(ctx, low, high, optimalFontSize)\<close>.  \<open>low\<close> and
  \<open>optimalFontSize\<close> only ever hold 4 or a value computed from \<^verbatim>\<open>Math.floor\<close>,
  so they are integers; \<open>high\<close> starts as \<^verbatim>\<open>Math.max(maxHeight, maxWidth)\<close>, a real.
\<close>

type_synonym search_state = "ctx \<times> int \<times> real \<times> int"

definition search_mid :: "int \<Rightarrow> real \<Rightarrow> int" where
  "search_mid low high = \<lfloor>(real_of_int low + high) / 2\<rfloor>"

definition search_cond :: "search_state \<Rightarrow> bool" where
  "search_cond s = (case s of (c, low, high, opt) \<Rightarrow> real_of_int low \<le> high)"

definition search_step ::
  "measure_fn \<Rightarrow> string \<Rightarrow> real \<Rightarrow> real \<Rightarrow> TextStyle \<Rightarrow> search_state \<Rightarrow> search_state" where
  "search_step mt text maxWidth maxHeight style s =
     (case s of (c, low, high, opt) \<Rightarrow>
        let mid = search_mid low high;
            c' = set_font (buildFontString style mid) c;
            textWidth = measureText mt c' text
                        + letterSpacing style * real_of_int (int (length text) - 1);
            textHeight = real_of_int mid * lineHeight style
        in if textWidth \<le> maxWidth - 4 \<and> textHeight \<le> maxHeight - 4
           then (c', mid + 1, high, mid)
           else (c', low, real_of_int mid - 1, opt))"

definition search_measure :: "search_state \<Rightarrow> nat" where
  "search_measure s = (case s of (c, low, high, opt) \<Rightarrow> nat (\<lfloor>high\<rfloor> - low + 1))"

lemma search_mid_bounds:
  assumes "real_of_int low \<le> high"
  shows "low \<le> search_mid low high" and "real_of_int (search_mid low high) \<le> high"
proof -
  have "real_of_int low \<le> (real_of_int low + high) / 2" using assms by simp
  then show "low \<le> search_mid low high" unfolding search_mid_def by (simp add: le_floor_iff)
  have "real_of_int (search_mid low high) \<le> (real_of_int low + high) / 2"
    unfolding search_mid_def by (rule of_int_floor_le)
  also have "\<dots> \<le> high" using assms by simp
  finally show "real_of_int (search_mid low high) \<le> high" .
qed

lemma search_step_measure:
  assumes "search_cond s"
  shows "search_measure (search_step mt text maxWidth maxHeight style s) < search_measure s"
proof -
  obtain c low high opt where s: "s = (c, low, high, opt)" by (cases s) auto
  from assms s have lh: "real_of_int low \<le> high" by (simp add: search_cond_def)
  note b = search_mid_bounds [OF lh]
  from b(2) have mf: "search_mid low high \<le> \<lfloor>high\<rfloor>" by (simp add: le_floor_iff)
  from b(1) mf show ?thesis
    by (simp add: s search_step_def search_measure_def Let_def)
qed

function search_loop ::
  "measure_fn \<Rightarrow> string \<Rightarrow> real \<Rightarrow> real \<Rightarrow> TextStyle \<Rightarrow> search_state \<Rightarrow> search_state" where
  "search_loop mt text maxWidth maxHeight style s =
     (if search_cond s
      then search_loop mt text maxWidth maxHeight style
             (search_step mt text maxWidth maxHeight style s)
      else s)"
  by pat_completeness auto
termination
  by (relation "measure (\<lambda>(mt, text, maxWidth, maxHeight, style, s). search_measure s)")
     (auto simp: search_step_measure)

declare search_loop.simps [simp del]

definition calculateOptimalFontSize ::
  "measure_fn \<Rightarrow> ctx \<Rightarrow> string \<Rightarrow> real \<Rightarrow> real \<Rightarrow> TextStyle \<Rightarrow> ctx \<times> int" where
  "calculateOptimalFontSize mt c text maxWidth maxHeight style =
     (let minFontSize = 4;
          low = minFontSize;
          high = max maxHeight maxWidth;
          optimalFontSize = minFontSize
      in case search_loop mt text maxWidth maxHeight style (c, low, high, optimalFontSize) of
           (c', low', high', opt) \<Rightarrow> (c', max opt minFontSize))"



subsection \<open>The loop in double-precision arithmetic\<close>

text \<open>
  The same loop with \<open>low\<close>, \<open>mid\<close>, \<open>high\<close> and \<open>optimalFontSize\<close> as the
  doubles they are in the program, every operation rounded by \<open>f64\<close>:
  \<^verbatim>\<open>(low + high) / 2\<close> is a rounded sum and a rounded quotient, \<^verbatim>\<open>Math.floor\<close> is
  exact, and \<^verbatim>\<open>mid + 1\<close>, \<^verbatim>\<open>mid - 1\<close>, the two sides of both comparisons are
  rounded.  Nothing bounds the number of iterations of \<^verbatim>\<open>while (low <= high)\<close>, so the
  loop is a partial function: \<open>None\<close> is the loop that never exits.
\<close>

type_synonym search_state_f64 = "ctx \<times> real \<times> real \<times> real"

definition search_cond_f64 :: "search_state_f64 \<Rightarrow> bool" where
  "search_cond_f64 s = (case s of (c, low, high, opt) \<Rightarrow> low \<le> high)"

definition search_step_f64 ::
  "measure_fn \<Rightarrow> string \<Rightarrow> real \<Rightarrow> real \<Rightarrow> TextStyle \<Rightarrow> search_state_f64 \<Rightarrow> search_state_f64" where
  "search_step_f64 mt text maxWidth maxHeight style s =
     (case s of (c, low, high, opt) \<Rightarrow>
        let mid = real_of_int \<lfloor>f64 (f64 (low + high) / 2)\<rfloor>;
            c' = set_font (buildFontString style \<lfloor>mid\<rfloor>) c;
            textWidth = f64 (measureText mt c' text
                             + f64 (letterSpacing style * real_of_int (int (length text) - 1)));
            textHeight = f64 (mid * lineHeight style)
        in if textWidth \<le> f64 (maxWidth - 4) \<and> textHeight \<le> f64 (maxHeight - 4)
           then (c', f64 (mid + 1), high, mid)
           else (c', low, f64 (mid - 1), opt))"

partial_function (option) search_loop_f64 ::
  "measure_fn \<Rightarrow> string \<Rightarrow> real \<Rightarrow> real \<Rightarrow> TextStyle \<Rightarrow> search_state_f64
     \<Rightarrow> search_state_f64 option" where
  "search_loop_f64 mt text maxWidth maxHeight style s =
     (if search_cond_f64 s
      then search_loop_f64 mt text maxWidth maxHeight style
             (search_step_f64 mt text maxWidth maxHeight style s)
      else Some s)"

definition calculateOptimalFontSize_f64 ::
  "measure_fn \<Rightarrow> ctx \<Rightarrow> string \<Rightarrow> real \<Rightarrow> real \<Rightarrow> TextStyle \<Rightarrow> (ctx \<times> real) option" where
  "calculateOptimalFontSize_f64 mt c text maxWidth maxHeight style =
     (let minFontSize = 4;
          low = minFontSize;
          high = max maxHeight maxWidth;
          optimalFontSize = minFontSize
      in case search_loop_f64 mt text maxWidth maxHeight style (c, low, high, optimalFontSize) of
           None \<Rightarrow> None
         | Some (c', low', high', opt) \<Rightarrow> Some (c', max opt minFontSize))"

section \<open>drawTextOnCanvas\<close>

subsection \<open>Text transformation\<close>

text \<open>
  \<^verbatim>\<open>text.replace(/\b\w/g, (c) => c.toUpperCase())\<close>: scanning left to right, a
  character matches \<^verbatim>\<open>\b\w\<close> when it is a word character and the character before it
  (if any) is not.  \<open>prev\<close> tells whether the character before is a word character.
\<close>

fun capitalize_from :: "bool \<Rightarrow> string \<Rightarrow> string" where
  "capitalize_from prev [] = []"
| "capitalize_from prev (ch # rest) =
     (if is_word_char ch \<and> \<not> prev then toUpperCase_char ch else ch)
     # capitalize_from (is_word_char ch) rest"

definition capitalize :: "string \<Rightarrow> string" where
  "capitalize s = capitalize_from False s"

definition displayText_of :: "TextStyle \<Rightarrow> string \<Rightarrow> string" where
  "displayText_of style text =
     (case textTransform style of
        Uppercase \<Rightarrow> toUpperCase text
      | Lowercase \<Rightarrow> toLowerCase text
      | Capitalize \<Rightarrow> capitalize text
      | TransformNone \<Rightarrow> text)"

subsection \<open>Text shadow\<close>

text \<open>
  \<^verbatim>\<open>style.textShadow.match(/(-?\d+)px\s+(-?\d+)px\s+(\d+)px\s+(.*)/)\<close>.
  The pattern is not anchored: the match is the leftmost one.  At a given start the
  greedy quantifiers leave no choice (a digit run or a white-space run must be taken
  whole for the next item to match), so each piece is a function of the remaining input.
\<close>

definition match_uint :: "string \<Rightarrow> (string \<times> string) option" where
  "match_uint s =
     (let ds = takeWhile is_digit s
      in if ds = [] then None else Some (ds, dropWhile is_digit s))"

definition match_int :: "string \<Rightarrow> (string \<times> string) option" where
  "match_int s =
     (case s of
        CHR ''-'' # r \<Rightarrow>
          (case match_uint r of None \<Rightarrow> None | Some (ds, r') \<Rightarrow> Some (CHR ''-'' # ds, r'))
      | _ \<Rightarrow> match_uint s)"

definition match_px :: "string \<Rightarrow> string option" where
  "match_px s = (case s of CHR ''p'' # CHR ''x'' # r \<Rightarrow> Some r | _ \<Rightarrow> None)"

definition match_spaces :: "string \<Rightarrow> string option" where
  "match_spaces s = (if takeWhile is_space s = [] then None else Some (dropWhile is_space s))"

definition match_px_spaces :: "string \<Rightarrow> string option" where
  "match_px_spaces s = (case match_px s of None \<Rightarrow> None | Some r \<Rightarrow> match_spaces r)"

definition shadow_match_at :: "string \<Rightarrow> (string \<times> string \<times> string \<times> string) option" where
  "shadow_match_at s =
     (case match_int s of None \<Rightarrow> None | Some (g1, r1) \<Rightarrow>
      case match_px_spaces r1 of None \<Rightarrow> None | Some r2 \<Rightarrow>
      case match_int r2 of None \<Rightarrow> None | Some (g2, r3) \<Rightarrow>
      case match_px_spaces r3 of None \<Rightarrow> None | Some r4 \<Rightarrow>
      case match_uint r4 of None \<Rightarrow> None | Some (g3, r5) \<Rightarrow>
      case match_px_spaces r5 of None \<Rightarrow> None | Some r6 \<Rightarrow>
        Some (g1, g2, g3, takeWhile (\<lambda>ch. \<not> is_line_terminator ch) r6))"

fun shadow_match :: "string \<Rightarrow> (string \<times> string \<times> string \<times> string) option" where
  "shadow_match [] = None"
| "shadow_match (ch # rest) =
     (case shadow_match_at (ch # rest) of
        Some m \<Rightarrow> Some m
      | None \<Rightarrow> shadow_match rest)"

definition set_shadow :: "real \<Rightarrow> real \<Rightarrow> real \<Rightarrow> string \<Rightarrow> ctx \<Rightarrow> ctx" where
  "set_shadow ox oy blur col c =
     c\<lparr> c_state := (c_state c)\<lparr> g_shadowOffsetX := ox, g_shadowOffsetY := oy,
                                 g_shadowBlur := blur, g_shadowColor := col \<rparr> \<rparr>"

text \<open>The block \<^verbatim>\<open>if (style.textShadow && style.textShadow !== 'none') { ... }\<close>.\<close>

definition apply_textShadow :: "TextStyle \<Rightarrow> ctx \<Rightarrow> ctx" where
  "apply_textShadow style c =
     (if textShadow style \<noteq> [] \<and> textShadow style \<noteq> ''none''
      then (case shadow_match (textShadow style) of
              Some (g1, g2, g3, g4) \<Rightarrow>
                set_shadow (real_of_int (parseInt g1)) (real_of_int (parseInt g2))
                           (real_of_int (parseInt g3)) g4 c
            | None \<Rightarrow> c)
      else c)"

subsection \<open>drawTextWithLetterSpacing\<close>

definition letterSpacing_totalWidth :: "measure_fn \<Rightarrow> ctx \<Rightarrow> string list \<Rightarrow> real \<Rightarrow> real" where
  "letterSpacing_totalWidth mt c characters spacing =
     foldl (\<lambda>totalWidth ch. totalWidth + (measureText mt c ch + spacing)) 0 characters - spacing"

definition place_char :: "measure_fn \<Rightarrow> real \<Rightarrow> real \<Rightarrow> ctx \<times> real \<Rightarrow> string \<Rightarrow> ctx \<times> real" where
  "place_char mt py spacing st ch =
     (case st of (c, currentX) \<Rightarrow>
        let charWidth = measureText mt c ch
        in (fillText ch (currentX + charWidth / 2) py c, currentX + charWidth + spacing))"

definition drawTextWithLetterSpacing ::
  "measure_fn \<Rightarrow> ctx \<Rightarrow> string \<Rightarrow> real \<Rightarrow> real \<Rightarrow> real \<Rightarrow> ctx" where
  "drawTextWithLetterSpacing mt c text px py spacing =
     (let characters = map (\<lambda>ch. [ch]) text;
          totalWidth = letterSpacing_totalWidth mt c characters spacing;
          currentX = px - totalWidth / 2
      in fst (foldl (place_char mt py spacing) (c, currentX) characters))"

subsection \<open>drawTextDecoration\<close>

definition drawTextDecoration ::
  "measure_fn \<Rightarrow> ctx \<Rightarrow> string \<Rightarrow> real \<Rightarrow> real \<Rightarrow> int \<Rightarrow> TextStyle \<Rightarrow> ctx" where
  "drawTextDecoration mt c text px py fs style =
     (let textWidth = measureText mt c text
                      + letterSpacing style * real_of_int (int (length text) - 1);
          startX = px - textWidth / 2;
          endX = px + textWidth / 2;
          g = (c_state c)\<lparr> g_strokeStyle := color style,
                             g_lineWidth := max 1 (real_of_int fs / 15) \<rparr>;
          segment =
            (case textDecoration style of
               Underline \<Rightarrow> [MoveTo startX (py + real_of_int fs / 4),
                              LineTo endX (py + real_of_int fs / 4)]
             | LineThrough \<Rightarrow> [MoveTo startX py, LineTo endX py]
             | Overline \<Rightarrow> [MoveTo startX (py - real_of_int fs / 2),
                             LineTo endX (py - real_of_int fs / 2)]
             | DecorationNone \<Rightarrow> [])
      in c\<lparr> c_state := g, c_path := segment, c_painted := c_painted c @ [Stroke g segment] \<rparr>)"

subsection \<open>The render procedure\<close>

definition paint_setup :: "TextStyle \<Rightarrow> int \<Rightarrow> ctx \<Rightarrow> ctx" where
  "paint_setup style fs c =
     c\<lparr> c_state := (c_state c)\<lparr> g_globalAlpha := opacity style,
                                 g_font := buildFontString style fs,
                                 g_fillStyle := color style,
                                 g_textAlign := ''center'',
                                 g_textBaseline := ''middle'' \<rparr> \<rparr>"

definition drawTextOnCanvas ::
  "measure_fn \<Rightarrow> ctx \<Rightarrow> string \<Rightarrow> TextArea \<Rightarrow> real \<Rightarrow> real \<Rightarrow> ctx" where
  "drawTextOnCanvas mt c text area scaleX scaleY =
     (let style = area_style area;
          scaledX = area_x area * scaleX;
          scaledY = area_y area * scaleY;
          scaledWidth = area_width area * scaleX;
          scaledHeight = area_height area * scaleY;
          displayText = displayText_of style text
      in case calculateOptimalFontSize mt c displayText scaledWidth scaledHeight style of
           (c1, optimalFontSize) \<Rightarrow>
             let c2 = paint_setup style optimalFontSize (ctx_save c1);
                 c3 = apply_textShadow style c2;
                 centerX = scaledX + scaledWidth / 2;
                 centerY = scaledY + scaledHeight / 2;
                 c4 = (if letterSpacing style \<noteq> 0
                       then drawTextWithLetterSpacing mt c3 displayText centerX centerY
                              (letterSpacing style)
                       else fillText displayText centerX centerY c3);
                 c5 = (if textDecoration style \<noteq> DecorationNone
                       then drawTextDecoration mt c4 displayText centerX centerY
                              optimalFontSize style
                       else c4)
             in ctx_restore c5)"

section \<open>generateImages\<close>

record canvas =
  cv_width :: real
  cv_height :: real
  cv_ctx :: ctx

datatype blob = PngBlob canvas

record GeneratedImage =
  gi_name :: string
  gi_dataUrl :: string
  gi_blob :: blob

datatype error = ImageLoadFailed | BlobFailed

text \<open>
  What the browser decides: whether the data URL decodes (\<^verbatim>\<open>loadImage\<close>), whether
  the canvas allocated in iteration \<open>i\<close> hands out a 2D context
  (\<^verbatim>\<open>canvas.getContext('2d')\<close>), whether \<^verbatim>\<open>canvas.toBlob\<close> delivers a blob,
  and the encoder behind \<^verbatim>\<open>canvas.toDataURL\<close>.
\<close>

record host =
  h_measure :: measure_fn
  h_loadImage :: "string \<Rightarrow> image option"
  h_getContext :: "nat \<Rightarrow> bool"
  h_toBlob :: "canvas \<Rightarrow> blob option"
  h_toDataURL :: "canvas \<Rightarrow> string"

definition drawImage :: "image \<Rightarrow> real \<Rightarrow> real \<Rightarrow> real \<Rightarrow> real \<Rightarrow> ctx \<Rightarrow> ctx" where
  "drawImage img dx dy dw dh c = c\<lparr> c_painted := c_painted c @ [DrawImage img dx dy dw dh] \<rparr>"

text \<open>
  One iteration of the \<^verbatim>\<open>for\<close> loop, on the results collected so far and the state
  \<open>s\<close> of the caller that \<^verbatim>\<open>onProgress\<close> acts on.  \<open>Inl\<close> is a rejected
  \<^verbatim>\<open>await\<close>, which rejects the whole call.
\<close>

definition generate_body ::
  "host \<Rightarrow> image \<Rightarrow> real \<Rightarrow> real \<Rightarrow> string list \<Rightarrow> TextArea list
     \<Rightarrow> (nat \<Rightarrow> nat \<Rightarrow> 's \<Rightarrow> 's) option \<Rightarrow> nat
     \<Rightarrow> GeneratedImage list \<times> 's \<Rightarrow> error + GeneratedImage list \<times> 's" where
  "generate_body h img imageWidth imageHeight names textAreas onProgress i st =
     (case st of (results, s) \<Rightarrow>
        let name = trim (names ! i)
        in if name = [] then Inr (results, s)
           else if \<not> h_getContext h i then Inr (results, s)
           else
             let c0 = drawImage img 0 0 imageWidth imageHeight fresh_ctx;
                 c1 = foldl (\<lambda>c area. drawTextOnCanvas (h_measure h) c name area 1 1) c0 textAreas;
                 cv = \<lparr> cv_width = imageWidth, cv_height = imageHeight, cv_ctx = c1 \<rparr>
             in case h_toBlob h cv of
                  None \<Rightarrow> Inl BlobFailed
                | Some b \<Rightarrow>
                    let dataUrl = h_toDataURL h cv;
                        results' = results @ [\<lparr> gi_name = name, gi_dataUrl = dataUrl, gi_blob = b \<rparr>]
                    in (case onProgress of
                          Some f \<Rightarrow> Inr (results', f (i + 1) (length names) s)
                        | None \<Rightarrow> Inr (results', s)))"

function generate_loop ::
  "host \<Rightarrow> image \<Rightarrow> real \<Rightarrow> real \<Rightarrow> string list \<Rightarrow> TextArea list
     \<Rightarrow> (nat \<Rightarrow> nat \<Rightarrow> 's \<Rightarrow> 's) option \<Rightarrow> nat
     \<Rightarrow> GeneratedImage list \<times> 's \<Rightarrow> (error + GeneratedImage list) \<times> 's" where
  "generate_loop h img imageWidth imageHeight names textAreas onProgress i st =
     (if i < length names
      then (case generate_body h img imageWidth imageHeight names textAreas onProgress i st of
              Inl e \<Rightarrow> (Inl e, snd st)
            | Inr st' \<Rightarrow>
                generate_loop h img imageWidth imageHeight names textAreas onProgress (i + 1) st')
      else (Inr (fst st), snd st))"
  by pat_completeness auto
termination
  by (relation "measure (\<lambda>(h, img, imageWidth, imageHeight, names, textAreas, onProgress, i, st).
                            length names - i)") auto

declare generate_loop.simps [simp del]

definition generateImages ::
  "host \<Rightarrow> string \<Rightarrow> real \<Rightarrow> real \<Rightarrow> string list \<Rightarrow> TextArea list
     \<Rightarrow> (nat \<Rightarrow> nat \<Rightarrow> 's \<Rightarrow> 's) option \<Rightarrow> 's \<Rightarrow> (error + GeneratedImage list) \<times> 's" where
  "generateImages h imageDataUrl imageWidth imageHeight names textAreas onProgress s =
     (case h_loadImage h imageDataUrl of
        None \<Rightarrow> (Inl ImageLoadFailed, s)
      | Some img \<Rightarrow>
          generate_loop h img imageWidth imageHeight names textAreas onProgress 0 ([], s))"

text \<open>A callback that records its invocations, in order.\<close>

definition record_progress :: "nat \<Rightarrow> nat \<Rightarrow> (nat \<times> nat) list \<Rightarrow> (nat \<times> nat) list" where
  "record_progress cur tot calls = calls @ [(cur, tot)]"

section \<open>Sample hosts and inputs\<close>

text \<open>
  Measurement functions to run the definitions on: \<open>half_em\<close> reads the pixel size
  out of the font string and makes every glyph half as wide as the font is tall;
  \<open>spike12\<close> is flat except at 12px, where it reports a width of 100.
\<close>

definition font_px :: "string \<Rightarrow> nat" where
  "font_px f = parse_nat (takeWhile is_digit (dropWhile (\<lambda>ch. \<not> is_digit ch) f))"

definition half_em :: measure_fn where
  "half_em f t = real (font_px f) * real (length t) / 2"



definition HALF_LINE_STYLE :: TextStyle where
  "HALF_LINE_STYLE = DEFAULT_TEXT_STYLE\<lparr> lineHeight := 1 / 2 \<rparr>"

definition sample_area :: TextArea where
  "sample_area = \<lparr> area_id = ''a1'', area_x = 10, area_y = 20, area_width = 200,
                   area_height = 50, area_style = DEFAULT_TEXT_STYLE \<rparr>"

definition sample_host :: host where
  "sample_host = \<lparr> h_measure = half_em, h_loadImage = (\<lambda>url. Some (Image url)),
                   h_getContext = (\<lambda>i. True), h_toBlob = (\<lambda>cv. Some (PngBlob cv)),
                   h_toDataURL = (\<lambda>cv. ''data:image/png;base64,'') \<rparr>"

section \<open>Predicates of the specification\<close>








text \<open>Position \<open>i\<close> of \<open>s\<close> is the first character of a run of word characters.\<close>

definition run_start :: "string \<Rightarrow> nat \<Rightarrow> bool" where
  "run_start s i = (is_word_char (s ! i) \<and> (i = 0 \<or> \<not> is_word_char (s ! (i - 1))))"





text \<open>
  Name \<open>i\<close> gets an output record: it is not blank and its canvas hands out a context.
  \<open>notify\<close> is the call of \<^verbatim>\<open>onProgress\<close> after name \<open>j\<close>, when one is supplied.
\<close>

definition yields_record :: "host \<Rightarrow> string list \<Rightarrow> nat \<Rightarrow> bool" where
  "yields_record h names i = (trim (names ! i) \<noteq> [] \<and> h_getContext h i)"

definition notify :: "(nat \<Rightarrow> nat \<Rightarrow> 's \<Rightarrow> 's) option \<Rightarrow> nat \<Rightarrow> 's \<Rightarrow> nat \<Rightarrow> 's" where
  "notify onProgress n s j = (case onProgress of Some f \<Rightarrow> f (j + 1) n s | None \<Rightarrow> s)"




text \<open>Further sample inputs.\<close>

definition flaky_host :: host where
  "flaky_host = sample_host\<lparr> h_getContext := (\<lambda>i. i \<noteq> 1) \<rparr>"




text \<open>
  Progress of one iteration of the search: \<open>low\<close> strictly larger and \<open>high\<close> kept,
  or \<open>high\<close> strictly smaller and \<open>low\<close> kept.
\<close>

definition search_progress :: "search_state_f64 \<Rightarrow> search_state_f64 \<Rightarrow> bool" where
  "search_progress s t =
     (case s of (c, low, high, opt) \<Rightarrow> case t of (c', low', high', opt') \<Rightarrow>
        (low < low' \<and> high' = high) \<or> (low' = low \<and> high' < high))"

text \<open>
  The states of the double-precision search below \<open>2 ^ 53\<close>: \<open>low\<close> is an integer from
  4 up and \<open>high\<close> is a double below \<open>2 ^ 53\<close>; the number of candidates left bounds the
  iterations.
\<close>

definition search_inv_f64 :: "search_state_f64 \<Rightarrow> bool" where
  "search_inv_f64 s =
     (case s of (c, low, high, opt) \<Rightarrow>
        (\<exists>l. low = real_of_int l \<and> 4 \<le> l) \<and> f64 high = high \<and> high < 2 ^ 53)"

definition search_measure_f64 :: "search_state_f64 \<Rightarrow> nat" where
  "search_measure_f64 s = (case s of (c, low, high, opt) \<Rightarrow> nat (\<lfloor>high\<rfloor> - \<lfloor>low\<rfloor> + 1))"

text \<open>The characters of the Basic Latin block.\<close>

definition basic_latin :: "char \<Rightarrow> bool" where
  "basic_latin ch = (of_char ch < (128 :: nat))"

section \<open>The font-size search\<close>

subsection \<open>The loop and its invariants\<close>










subsection \<open>The sample measurement is nondecreasing in the font size\<close>










subsection \<open>Rounding to double precision\<close>

text \<open>
  From 1 up, \<open>f64\<close> is monotone, commutes with doubling, and is the identity on the
  integers up to \<open>2 ^ 53\<close>.
\<close>

lemma pow2_powr: "pow2 k = 2 powr real_of_int k"
proof (cases "0 \<le> k")
  case True
  then show ?thesis by (simp add: pow2_def powr_realpow [symmetric])
next
  case False
  have "(2::real) powr real (nat (- k)) = 2 ^ nat (- k)" by (simp add: powr_realpow)
  moreover from False have "real (nat (- k)) = - real_of_int k" by simp
  ultimately have "(2::real) ^ nat (- k) = 2 powr (- real_of_int k)" by simp
  with False show ?thesis by (simp add: pow2_def powr_minus_divide)
qed

lemma pow2_pos: "0 < pow2 k" by (simp add: pow2_powr)

lemma pow2_add: "pow2 (a + b) = pow2 a * pow2 b" by (simp add: pow2_powr powr_add)

lemma pow2_mono: "a \<le> b \<Longrightarrow> pow2 a \<le> pow2 b" by (simp add: pow2_powr)

lemma pow2_Suc: "pow2 (k + 1) = 2 * pow2 k" by (simp add: pow2_add) (simp add: pow2_def)

lemma expo_bounds:
  assumes "1 \<le> a"
  shows "0 \<le> expo a" and "pow2 (expo a) \<le> a" and "a < pow2 (expo a + 1)"
proof -
  from assms have p: "0 < \<lfloor>a\<rfloor>" by simp
  note b = bitlen_bounds [OF p]
  from p have b1: "1 \<le> bitlen \<lfloor>a\<rfloor>" by (auto simp: bitlen_alt_def)
  with assms show e: "0 \<le> expo a" by (simp add: expo_def)
  from b have "real_of_int (2 ^ nat (bitlen \<lfloor>a\<rfloor> - 1)) \<le> real_of_int \<lfloor>a\<rfloor>"
    by (simp only: of_int_le_iff)
  then have "2 ^ nat (bitlen \<lfloor>a\<rfloor> - 1) \<le> a" by (simp add: le_floor_iff)
  with assms b1 show "pow2 (expo a) \<le> a" by (simp add: expo_def pow2_def)
  from b have "\<lfloor>a\<rfloor> + 1 \<le> 2 ^ nat (bitlen \<lfloor>a\<rfloor>)" by simp
  then have "real_of_int (\<lfloor>a\<rfloor> + 1) \<le> real_of_int (2 ^ nat (bitlen \<lfloor>a\<rfloor>))"
    by (simp only: of_int_le_iff)
  then have "a < 2 ^ nat (bitlen \<lfloor>a\<rfloor>)" by (simp add: floor_less_iff) linarith
  with assms b1 show "a < pow2 (expo a + 1)" by (simp add: expo_def pow2_def)
qed

lemma expo_unique:
  assumes "1 \<le> a" and "pow2 k \<le> a" and "a < pow2 (k + 1)"
  shows "expo a = k"
proof (rule ccontr)
  assume n: "expo a \<noteq> k"
  note b = expo_bounds [OF assms(1)]
  show False
  proof (cases "expo a < k")
    case True
    then have "pow2 (expo a + 1) \<le> pow2 k" by (intro pow2_mono) simp
    with b(3) assms(2) show False by linarith
  next
    case False
    with n have "pow2 (k + 1) \<le> pow2 (expo a)" by (intro pow2_mono) simp
    with b(2) assms(3) show False by linarith
  qed
qed

lemma expo_mono:
  assumes "1 \<le> a" and "a \<le> b"
  shows "expo a \<le> expo b"
proof (rule ccontr)
  assume "\<not> expo a \<le> expo b"
  then have "pow2 (expo b + 1) \<le> pow2 (expo a)" by (intro pow2_mono) simp
  with expo_bounds(2) [OF assms(1)] expo_bounds(3) [of b] assms show False by linarith
qed

lemma round_even_of_int: "round_even (real_of_int n) = n"
  by (simp add: round_even_def)

lemma round_even_mono:
  assumes "r \<le> s"
  shows "round_even r \<le> round_even s"
proof (cases "\<lfloor>r\<rfloor> = \<lfloor>s\<rfloor>")
  case True
  with assms show ?thesis by (auto simp: round_even_def Let_def)
next
  case False
  with assms have "\<lfloor>r\<rfloor> + 1 \<le> \<lfloor>s\<rfloor>" using floor_mono [OF assms] by linarith
  moreover have "round_even r \<le> \<lfloor>r\<rfloor> + 1" by (auto simp: round_even_def Let_def)
  moreover have "\<lfloor>s\<rfloor> \<le> round_even s" by (auto simp: round_even_def Let_def)
  ultimately show ?thesis by linarith
qed

lemma f64_ge1:
  assumes "1 \<le> x"
  shows "f64 x = real_of_int (round_even (x / pow2 (expo x - 52))) * pow2 (expo x - 52)"
  using assms by (simp add: f64_def Let_def)

lemma pow2_numeral: "pow2 52 = 2 ^ 52" "pow2 53 = 2 ^ 53" "pow2 0 = 1"
  by (simp_all add: pow2_def)

lemma pow2_split52: "pow2 k = 2 ^ 52 * pow2 (k - 52)"
proof -
  have "pow2 k = pow2 (52 + (k - 52))" by (rule arg_cong [where f = pow2]) simp
  also have "\<dots> = pow2 52 * pow2 (k - 52)" by (rule pow2_add)
  finally show ?thesis by (simp only: pow2_numeral)
qed

lemma pow2_split53: "pow2 (k + 1) = 2 ^ 53 * pow2 (k - 52)"
proof -
  have "pow2 (k + 1) = pow2 (53 + (k - 52))" by (rule arg_cong [where f = pow2]) simp
  also have "\<dots> = pow2 53 * pow2 (k - 52)" by (rule pow2_add)
  finally show ?thesis by (simp only: pow2_numeral)
qed

lemma f64_scaled_bounds:
  assumes "1 \<le> x"
  shows "2 ^ 52 \<le> x / pow2 (expo x - 52)" and "x / pow2 (expo x - 52) < 2 ^ 53"
proof -
  let ?q = "pow2 (expo x - 52)"
  have q: "0 < ?q" by (rule pow2_pos)
  note e = pow2_split52 [of "expo x"] pow2_split53 [of "expo x"]
  from expo_bounds(2) [OF assms] have "2 ^ 52 * ?q \<le> x" by (simp only: e(1) [symmetric])
  with q show "2 ^ 52 \<le> x / ?q" by (simp add: le_divide_eq)
  from expo_bounds(3) [OF assms] have "x < 2 ^ 53 * ?q" by (simp only: e(2) [symmetric])
  with q show "x / ?q < 2 ^ 53" by (simp add: divide_less_eq)
qed

lemma f64_binade:
  assumes "1 \<le> x"
  shows "pow2 (expo x) \<le> f64 x" and "f64 x \<le> pow2 (expo x + 1)"
proof -
  let ?q = "pow2 (expo x - 52)"
  have q: "0 < ?q" by (rule pow2_pos)
  note e = pow2_split52 [of "expo x"] pow2_split53 [of "expo x"]
  note b = f64_scaled_bounds [OF assms]
  have "round_even (real_of_int (2 ^ 52)) \<le> round_even (x / ?q)"
    by (rule round_even_mono) (use b(1) in simp)
  then have lo: "(2::int) ^ 52 \<le> round_even (x / ?q)" by (simp only: round_even_of_int)
  have "round_even (x / ?q) \<le> round_even (real_of_int (2 ^ 53))"
    by (rule round_even_mono) (use b(2) in simp)
  then have hi: "round_even (x / ?q) \<le> (2::int) ^ 53" by (simp only: round_even_of_int)
  from lo have "real_of_int (2 ^ 52) \<le> real_of_int (round_even (x / ?q))" by (simp only: of_int_le_iff)
  then have "2 ^ 52 * ?q \<le> real_of_int (round_even (x / ?q)) * ?q"
    using q by (simp add: mult_right_mono)
  then show "pow2 (expo x) \<le> f64 x" unfolding f64_ge1 [OF assms] e(1) by simp
  from hi have "real_of_int (round_even (x / ?q)) \<le> real_of_int (2 ^ 53)" by (simp only: of_int_le_iff)
  then have "real_of_int (round_even (x / ?q)) * ?q \<le> 2 ^ 53 * ?q"
    using q by (simp add: mult_right_mono)
  then show "f64 x \<le> pow2 (expo x + 1)" unfolding f64_ge1 [OF assms] e(2) by simp
qed

lemma f64_mono:
  assumes "1 \<le> x" and "x \<le> y"
  shows "f64 x \<le> f64 y"
proof (cases "expo x = expo y")
  case True
  let ?q = "pow2 (expo y - 52)"
  have q: "0 < ?q" by (rule pow2_pos)
  from assms(2) q have "x / ?q \<le> y / ?q" by (simp add: divide_right_mono)
  then have "round_even (x / ?q) \<le> round_even (y / ?q)" by (rule round_even_mono)
  then have "real_of_int (round_even (x / ?q)) * ?q \<le> real_of_int (round_even (y / ?q)) * ?q"
    using q by (simp add: mult_right_mono)
  with assms True show ?thesis by (simp add: f64_ge1)
next
  case False
  from assms have y: "1 \<le> y" by simp
  from False expo_mono [OF assms] have "expo x + 1 \<le> expo y" by simp
  then have "pow2 (expo x + 1) \<le> pow2 (expo y)" by (rule pow2_mono)
  with f64_binade(2) [OF assms(1)] f64_binade(1) [OF y] show ?thesis by linarith
qed

lemma f64_double:
  assumes "1 \<le> x"
  shows "f64 (2 * x) = 2 * f64 x"
proof -
  from assms have x2: "1 \<le> 2 * x" by simp
  have "expo (2 * x) = expo x + 1"
  proof (rule expo_unique [OF x2])
    have "pow2 (expo x + 1) = 2 * pow2 (expo x)" by (rule pow2_Suc)
    with expo_bounds(2) [OF assms] show "pow2 (expo x + 1) \<le> 2 * x" by linarith
    have "pow2 (expo x + 1 + 1) = 2 * pow2 (expo x + 1)" by (rule pow2_Suc)
    with expo_bounds(3) [OF assms] show "2 * x < pow2 (expo x + 1 + 1)" by linarith
  qed
  then have "pow2 (expo (2 * x) - 52) = pow2 (expo x - 52 + 1)"
    by (intro arg_cong [where f = pow2]) simp
  then have q: "pow2 (expo (2 * x) - 52) = 2 * pow2 (expo x - 52)"
    by (simp only: pow2_Suc)
  show ?thesis by (simp add: f64_ge1 [OF x2] f64_ge1 [OF assms] q)
qed

lemma f64_int:
  assumes "1 \<le> n" and "n \<le> 2 ^ 53"
  shows "f64 (real_of_int n) = real_of_int n"
proof -
  let ?x = "real_of_int n"
  let ?e = "expo ?x"
  from assms(1) have x1: "1 \<le> ?x" by simp
  note b = expo_bounds [OF x1]
  have e53: "?e \<le> 53"
  proof (rule ccontr)
    assume "\<not> ?e \<le> 53"
    then have "pow2 54 \<le> pow2 ?e" by (intro pow2_mono) simp
    moreover have "pow2 54 = 2 ^ 54" by (simp add: pow2_def)
    moreover from assms(2) have "?x \<le> real_of_int (2 ^ 53)" by (simp only: of_int_le_iff)
    ultimately show False using b(2) by simp
  qed
  have "\<exists>m. ?x / pow2 (?e - 52) = real_of_int m"
  proof (cases "?e \<le> 52")
    case True
    then have "pow2 (?e - 52) = 1 / 2 ^ nat (52 - ?e)"
      by (cases "?e = 52") (simp_all add: pow2_def)
    then have "?x / pow2 (?e - 52) = real_of_int (n * 2 ^ nat (52 - ?e))" by simp
    then show ?thesis by blast
  next
    case False
    with e53 have e: "?e = 53" by simp
    with b(2) have "2 ^ 53 \<le> ?x" by (simp add: pow2_numeral)
    moreover from assms(2) have "?x \<le> real_of_int (2 ^ 53)" by (simp only: of_int_le_iff)
    ultimately have "?x = 2 ^ 53" by simp
    moreover from e have "pow2 (?e - 52) = 2" by (simp add: pow2_def)
    ultimately have "?x / pow2 (?e - 52) = real_of_int (2 ^ 52)" by simp
    then show ?thesis by blast
  qed
  then obtain m where m: "?x / pow2 (?e - 52) = real_of_int m" by blast
  have q: "pow2 (?e - 52) \<noteq> 0" using pow2_pos [of "?e - 52"] by simp
  have "f64 ?x = real_of_int m * pow2 (?e - 52)"
    by (simp add: f64_ge1 [OF x1] m round_even_of_int)
  also have "\<dots> = ?x / pow2 (?e - 52) * pow2 (?e - 52)" by (simp only: m)
  also have "\<dots> = ?x" using q by simp
  finally show ?thesis .
qed

subsection \<open>Termination\<close>

text \<open>
  While \<open>high\<close> is below \<open>2 ^ 53\<close>, \<open>low\<close>, \<open>mid\<close> and the new bounds are
  integers that the doubles represent exactly, so that \<open>low \<le> mid \<le> high\<close> and the
  candidates left decrease whatever the fit test answers.
\<close>

lemma search_mid_f64:
  assumes "4 \<le> l" and "real_of_int l \<le> high" and "f64 high = high" and "high < 2 ^ 53"
  shows "\<exists>m. \<lfloor>f64 (f64 (real_of_int l + high) / 2)\<rfloor> = m \<and> l \<le> m \<and> real_of_int m \<le> high
            \<and> m < 2 ^ 53"
proof -
  let ?low = "real_of_int l"
  from assms have l1: "1 \<le> ?low" and h1: "1 \<le> high" by simp_all
  from assms(2,4) have "?low < real_of_int (2 ^ 53)" by simp
  then have l53: "l < 2 ^ 53" by (simp only: of_int_less_iff)
  with assms(1) have fl: "f64 ?low = ?low" by (intro f64_int) simp_all
  have "f64 (2 * ?low) \<le> f64 (?low + high)" by (rule f64_mono) (use assms l1 in simp_all)
  then have a: "2 * ?low \<le> f64 (?low + high)" by (simp add: f64_double [OF l1] fl)
  have "f64 (?low + high) \<le> f64 (2 * high)" by (rule f64_mono) (use assms l1 in simp_all)
  then have b: "f64 (?low + high) \<le> 2 * high" by (simp add: f64_double [OF h1] assms(3))
  have "f64 ?low \<le> f64 (f64 (?low + high) / 2)" by (rule f64_mono [OF l1]) (use a in simp)
  then have c: "?low \<le> f64 (f64 (?low + high) / 2)" by (simp only: fl)
  from a l1 have "1 \<le> f64 (?low + high) / 2" by simp
  then have "f64 (f64 (?low + high) / 2) \<le> f64 high" by (rule f64_mono) (use b in simp)
  then have d: "f64 (f64 (?low + high) / 2) \<le> high" by (simp only: assms(3))
  define m where "m = \<lfloor>f64 (f64 (?low + high) / 2)\<rfloor>"
  from c have m1: "l \<le> m" unfolding m_def by (simp add: le_floor_iff)
  have "real_of_int m \<le> f64 (f64 (?low + high) / 2)" unfolding m_def by (rule of_int_floor_le)
  with d have m2: "real_of_int m \<le> high" by linarith
  with assms(4) have "real_of_int m < 2 ^ 53" by linarith
  then have "m < 2 ^ 53" by simp
  with m1 m2 show ?thesis unfolding m_def by blast
qed

lemma search_step_f64_inv:
  assumes "search_inv_f64 s" and "search_cond_f64 s"
  shows "search_inv_f64 (search_step_f64 mt tx mw mh style s)"
    and "search_progress s (search_step_f64 mt tx mw mh style s)"
    and "search_measure_f64 (search_step_f64 mt tx mw mh style s) < search_measure_f64 s"
proof -
  obtain c low high opt where s: "s = (c, low, high, opt)" by (cases s) auto
  from assms(1) s obtain l where l: "low = real_of_int l" "4 \<le> l"
    and h: "f64 high = high" "high < 2 ^ 53"
    by (auto simp: search_inv_f64_def)
  from assms(2) s l have lh: "real_of_int l \<le> high" by (simp add: search_cond_f64_def)
  from search_mid_f64 [OF l(2) lh h] obtain m where
    m: "\<lfloor>f64 (f64 (real_of_int l + high) / 2)\<rfloor> = m" "l \<le> m" "real_of_int m \<le> high" "m < 2 ^ 53"
    by blast
  have up: "f64 (real_of_int m + 1) = real_of_int (m + 1)"
    using f64_int [of "m + 1"] m(2,4) l(2) by simp
  have dn: "f64 (real_of_int m - 1) = real_of_int (m - 1)"
    using f64_int [of "m - 1"] m(2,4) l(2) by simp
  have dn2: "f64 (real_of_int (m - 1)) = real_of_int (m - 1)"
    using f64_int [of "m - 1"] m(2,4) l(2) by simp
  have lt: "real_of_int (m - 1) < 2 ^ 53" using m(3) h(2) by simp
  have mf: "m \<le> \<lfloor>high\<rfloor>" using m(3) by (simp add: le_floor_iff)
  let ?t = "search_step_f64 mt tx mw mh style s"
  have st: "(\<exists>c'. ?t = (c', real_of_int (m + 1), high, real_of_int m))
            \<or> (\<exists>c'. ?t = (c', real_of_int l, real_of_int (m - 1), opt))"
    unfolding s l(1) search_step_f64_def by (simp add: Let_def m(1) up dn)
  from st show "search_inv_f64 ?t"
  proof (elim disjE exE)
    fix c' assume "?t = (c', real_of_int (m + 1), high, real_of_int m)"
    moreover have "\<exists>k. real_of_int (m + 1) = real_of_int k \<and> 4 \<le> k"
      using l(2) m(2) by (intro exI [of _ "m + 1"]) simp
    ultimately show ?thesis using h by (simp add: search_inv_f64_def)
  next
    fix c' assume "?t = (c', real_of_int l, real_of_int (m - 1), opt)"
    moreover have "\<exists>k. real_of_int l = real_of_int k \<and> 4 \<le> k"
      using l(2) by (intro exI [of _ l]) simp
    ultimately show ?thesis using dn2 lt by (simp add: search_inv_f64_def)
  qed
  from st show "search_progress s ?t"
  proof (elim disjE exE)
    fix c' assume "?t = (c', real_of_int (m + 1), high, real_of_int m)"
    then show ?thesis using m(2) by (simp add: s l(1) search_progress_def)
  next
    fix c' assume "?t = (c', real_of_int l, real_of_int (m - 1), opt)"
    then show ?thesis using m(3) by (simp add: s l(1) search_progress_def)
  qed
  from st show "search_measure_f64 ?t < search_measure_f64 s"
  proof (elim disjE exE)
    fix c' assume "?t = (c', real_of_int (m + 1), high, real_of_int m)"
    then show ?thesis using m(2) mf by (simp add: s l(1) search_measure_f64_def)
  next
    fix c' assume "?t = (c', real_of_int l, real_of_int (m - 1), opt)"
    then show ?thesis using m(2) mf by (simp add: s l(1) search_measure_f64_def)
  qed
qed

lemma search_f64_run:
  assumes "search_inv_f64 s"
  shows "\<exists>n \<le> search_measure_f64 s.
           search_loop_f64 mt tx mw mh style s = Some ((search_step_f64 mt tx mw mh style ^^ n) s)
           \<and> \<not> search_cond_f64 ((search_step_f64 mt tx mw mh style ^^ n) s)
           \<and> (\<forall>k < n. search_cond_f64 ((search_step_f64 mt tx mw mh style ^^ k) s)
                  \<and> search_progress ((search_step_f64 mt tx mw mh style ^^ k) s)
                       ((search_step_f64 mt tx mw mh style ^^ Suc k) s))"
  using assms
proof (induction "search_measure_f64 s" arbitrary: s rule: less_induct)
  case less
  let ?f = "search_step_f64 mt tx mw mh style"
  show ?case
  proof (cases "search_cond_f64 s")
    case False
    then have "search_loop_f64 mt tx mw mh style s = Some s"
      by (subst search_loop_f64.simps) simp
    with False show ?thesis by (intro exI [of _ 0]) simp
  next
    case True
    note i = search_step_f64_inv [OF less.prems True, of mt tx mw mh style]
    from less.hyps [OF i(3) i(1)] obtain n where nn: "n \<le> search_measure_f64 (?f s)
      \<and> search_loop_f64 mt tx mw mh style (?f s) = Some ((?f ^^ n) (?f s))
      \<and> \<not> search_cond_f64 ((?f ^^ n) (?f s))
      \<and> (\<forall>k < n. search_cond_f64 ((?f ^^ k) (?f s))
          \<and> search_progress ((?f ^^ k) (?f s)) ((?f ^^ Suc k) (?f s)))" ..
    then have n: "n \<le> search_measure_f64 (?f s)"
      "search_loop_f64 mt tx mw mh style (?f s) = Some ((?f ^^ n) (?f s))"
      "\<not> search_cond_f64 ((?f ^^ n) (?f s))"
      "\<forall>k < n. search_cond_f64 ((?f ^^ k) (?f s))
          \<and> search_progress ((?f ^^ k) (?f s)) ((?f ^^ Suc k) (?f s))"
      by simp_all
    have sw: "(?f ^^ k) (?f s) = (?f ^^ Suc k) s" for k by (simp add: funpow_swap1)
    have a: "Suc n \<le> search_measure_f64 s" using n(1) i(3) by simp
    have b: "search_loop_f64 mt tx mw mh style s = Some ((?f ^^ Suc n) s)"
      using n(2) True unfolding sw by (subst search_loop_f64.simps) simp
    have c: "\<not> search_cond_f64 ((?f ^^ Suc n) s)" using n(3) unfolding sw .
    have d: "search_cond_f64 ((?f ^^ k) s) \<and> search_progress ((?f ^^ k) s) ((?f ^^ Suc k) s)"
      if "k < Suc n" for k
    proof (cases k)
      case 0
      with True i(2) show ?thesis by simp
    next
      case (Suc j)
      with that have "j < n" by simp
      with n(4) have "search_cond_f64 ((?f ^^ j) (?f s))
          \<and> search_progress ((?f ^^ j) (?f s)) ((?f ^^ Suc j) (?f s))" by blast
      then show ?thesis unfolding sw Suc .
    qed
    from d have d': "\<forall>k < Suc n. search_cond_f64 ((?f ^^ k) s)
                       \<and> search_progress ((?f ^^ k) s) ((?f ^^ Suc k) s)"
      by (intro allI impI)
    show ?thesis by (intro exI [of _ "Suc n"] conjI a b c d')
  qed
qed

text \<open>
  C9 (amended).  With the arithmetic of the program, the binary-search loop of
  \<^verbatim>\<open>calculateOptimalFontSize\<close> terminates for every width and height that are
  doubles whose maximum is below \<open>2 ^ 53\<close> (also non-integer, zero or negative),
  every text, every style and every measurement function: the loop returns after
  \<open>n\<close> iterations of its body, \<open>n\<close> at most \<open>\<lfloor>max maxHeight maxWidth\<rfloor> - 3\<close>, each
  of which is entered with \<open>low \<le> high\<close> and either strictly increases \<open>low\<close> and
  keeps \<open>high\<close> or strictly decreases \<open>high\<close> and keeps \<open>low\<close>; then the loop
  condition fails and \<^verbatim>\<open>calculateOptimalFontSize\<close> returns a value.
\<close>

theorem search_f64_terminates:
  assumes "f64 maxWidth = maxWidth" and "f64 maxHeight = maxHeight"
    and "max maxHeight maxWidth < 2 ^ 53"
  shows "\<exists>n \<le> nat (\<lfloor>max maxHeight maxWidth\<rfloor> - 3).
           search_loop_f64 mt text maxWidth maxHeight style (c, 4, max maxHeight maxWidth, 4)
             = Some ((search_step_f64 mt text maxWidth maxHeight style ^^ n)
                       (c, 4, max maxHeight maxWidth, 4))
           \<and> \<not> search_cond_f64 ((search_step_f64 mt text maxWidth maxHeight style ^^ n)
                                  (c, 4, max maxHeight maxWidth, 4))
           \<and> (\<forall>k < n. search_cond_f64 ((search_step_f64 mt text maxWidth maxHeight style ^^ k)
                                        (c, 4, max maxHeight maxWidth, 4))
                  \<and> search_progress
                       ((search_step_f64 mt text maxWidth maxHeight style ^^ k)
                          (c, 4, max maxHeight maxWidth, 4))
                       ((search_step_f64 mt text maxWidth maxHeight style ^^ Suc k)
                          (c, 4, max maxHeight maxWidth, 4)))
           \<and> (\<exists>r. calculateOptimalFontSize_f64 mt c text maxWidth maxHeight style = Some r)"
proof -
  let ?s = "(c, 4 :: real, max maxHeight maxWidth, 4 :: real)"
  let ?f = "search_step_f64 mt text maxWidth maxHeight style"
  have h: "f64 (max maxHeight maxWidth) = max maxHeight maxWidth"
    using assms(1,2) by (simp add: max_def)
  have "\<exists>l. (4 :: real) = real_of_int l \<and> 4 \<le> l" by (rule exI [of _ 4]) simp
  with h assms(3) have i: "search_inv_f64 ?s" by (simp add: search_inv_f64_def)
  have m: "search_measure_f64 ?s = nat (\<lfloor>max maxHeight maxWidth\<rfloor> - 3)"
    by (simp add: search_measure_f64_def)
  from search_f64_run [OF i, of mt "text" maxWidth maxHeight style]
  obtain n where n: "n \<le> search_measure_f64 ?s"
    "search_loop_f64 mt text maxWidth maxHeight style ?s = Some ((?f ^^ n) ?s)"
    "\<not> search_cond_f64 ((?f ^^ n) ?s)"
    "\<forall>k < n. search_cond_f64 ((?f ^^ k) ?s) \<and> search_progress ((?f ^^ k) ?s) ((?f ^^ Suc k) ?s)"
    by blast
  have r: "\<exists>r. calculateOptimalFontSize_f64 mt c text maxWidth maxHeight style = Some r"
    using n(2) by (simp add: calculateOptimalFontSize_f64_def split: prod.split)
  from n(1) have n1: "n \<le> nat (\<lfloor>max maxHeight maxWidth\<rfloor> - 3)" by (simp only: m)
  show ?thesis by (intro exI [of _ n] conjI n1 n(2) n(3) n(4) r)
qed

text \<open>
  An instance with a non-integer width and a negative height, both doubles: the search
  returns.
\<close>

theorem search_f64_terminates_witness:
  "f64 (21 / 2) = 21 / 2 \<and> f64 (- 3) = - 3 \<and> max (- 3) (21 / 2) < (2 :: real) ^ 53
   \<and> (\<exists>r. calculateOptimalFontSize_f64 half_em fresh_ctx ''Ada'' (21 / 2) (- 3) DEFAULT_TEXT_STYLE
             = Some r)"
proof -
  have a: "f64 (21 / 2) = 21 / 2" by code_simp
  have b: "f64 (- 3) = - 3" by code_simp
  have c: "max (- 3) (21 / 2) < (2 :: real) ^ 53" by simp
  from search_f64_terminates [OF a b c, of half_em "''Ada''" DEFAULT_TEXT_STYLE fresh_ctx]
  have "\<exists>r. calculateOptimalFontSize_f64 half_em fresh_ctx ''Ada'' (21 / 2) (- 3) DEFAULT_TEXT_STYLE
             = Some r" by blast
  with a b c show ?thesis by (intro conjI)
qed

text \<open>
  A set of states that satisfy the loop condition and that the loop body maps into
  itself is never left: from there the loop does not return.
\<close>

lemma search_loop_f64_trapped:
  assumes tr: "\<And>t. t \<in> S \<Longrightarrow> search_cond_f64 t \<and> search_step_f64 mt tx mw mh style t \<in> S"
    and s: "s \<in> S"
  shows "search_loop_f64 mt tx mw mh style s = None"
proof (rule ccontr)
  assume "search_loop_f64 mt tx mw mh style s \<noteq> None"
  then obtain y where y: "search_loop_f64 mt tx mw mh style s = Some y" by auto
  let ?P = "\<lambda>mt' tx' mw' mh' style' s' (y' :: search_state_f64).
              \<not> (mt' = mt \<and> tx' = tx \<and> mw' = mw \<and> mh' = mh \<and> style' = style \<and> s' \<in> S)"
  have step: "?P mt' tx' mw' mh' style' s' y'"
    if ih: "\<And>a b c d e g z. f a b c d e g = Some z \<Longrightarrow> ?P a b c d e g z"
      and st: "(if search_cond_f64 s'
                then f mt' tx' mw' mh' style' (search_step_f64 mt' tx' mw' mh' style' s')
                else Some s') = Some y'"
    for f mt' tx' mw' mh' style' s' y'
  proof
    assume e: "mt' = mt \<and> tx' = tx \<and> mw' = mw \<and> mh' = mh \<and> style' = style \<and> s' \<in> S"
    with tr [of s'] have c: "search_cond_f64 s'" and n: "search_step_f64 mt tx mw mh style s' \<in> S"
      by simp_all
    from st c e have "f mt tx mw mh style (search_step_f64 mt tx mw mh style s') = Some y'" by simp
    from ih [OF this] n show False by simp
  qed
  have "?P mt tx mw mh style s y"
    by (rule search_loop_f64.raw_induct [where P = ?P, OF step y])
  with s show False by simp
qed

lemma f64_big:
  "f64 100000000000000000 = 100000000000000000"
  "f64 (100000000000000000 + 1) = 100000000000000000"
  "f64 (100000000000000000 - 4) = 100000000000000000"
  "f64 99999999999999996 = 100000000000000000"
  "f64 50000000000000000 = 50000000000000000"
  by code_simp+

lemma f64_small: "f64 4 = 4" "f64 5 = 5" "f64 8 = 8" "f64 0 = 0"
  by code_simp+

lemma big_trap:
  assumes "4 \<le> low" and "low \<le> 100000000000000000"
  shows "\<exists>c' low' opt'.
           search_step_f64 half_em [] 100000000000000000 100000000000000000 HALF_LINE_STYLE
             (c, low, 100000000000000000, opt) = (c', low', 100000000000000000, opt')
           \<and> 4 \<le> low' \<and> low' \<le> 100000000000000000"
proof -
  let ?H = "100000000000000000 :: real"
  have s1: "f64 8 \<le> f64 (low + ?H)" by (rule f64_mono) (use assms in simp_all)
  have "f64 (low + ?H) \<le> f64 (2 * ?H)" by (rule f64_mono) (use assms in simp_all)
  moreover have "(1::real) \<le> ?H" by simp
  from f64_double [OF this] have "f64 (2 * ?H) = 2 * f64 ?H" .
  then have "f64 (2 * ?H) = 2 * ?H" by (simp only: f64_big)
  ultimately have s2: "f64 (low + ?H) \<le> 2 * ?H" by (simp only:)
  have "f64 4 \<le> f64 (f64 (low + ?H) / 2)" by (rule f64_mono) (use s1 f64_small in simp_all)
  then have h1: "4 \<le> f64 (f64 (low + ?H) / 2)" by (simp only: f64_small)
  from s1 have "1 \<le> f64 (low + ?H) / 2" by (simp add: f64_small)
  then have "f64 (f64 (low + ?H) / 2) \<le> f64 ?H" by (rule f64_mono) (use s2 in simp)
  then have h2: "f64 (f64 (low + ?H) / 2) \<le> ?H" by (simp only: f64_big)
  define m where "m = \<lfloor>f64 (f64 (low + ?H) / 2)\<rfloor>"
  from h1 have m4: "4 \<le> m" unfolding m_def by (simp add: le_floor_iff)
  have "real_of_int m \<le> f64 (f64 (low + ?H) / 2)" unfolding m_def by (rule of_int_floor_le)
  with h2 have mH: "real_of_int m \<le> ?H" by linarith
  have "f64 5 \<le> f64 (real_of_int m + 1)" by (rule f64_mono) (use m4 in simp_all)
  then have l1: "4 \<le> f64 (real_of_int m + 1)" by (simp add: f64_small)
  have "f64 (real_of_int m + 1) \<le> f64 (?H + 1)" by (rule f64_mono) (use m4 mH in simp_all)
  then have l2: "f64 (real_of_int m + 1) \<le> ?H" by (simp only: f64_big)
  have "f64 (real_of_int m * (1 / 2)) \<le> f64 50000000000000000"
    by (rule f64_mono) (use m4 mH in simp_all)
  then have th: "f64 (real_of_int m * (1 / 2)) \<le> ?H" by (simp only: f64_big)
  have tw: "f64 (half_em f [] + f64 0) = 0" for f
    by (simp add: half_em_def f64_small)
  have "search_step_f64 half_em [] ?H ?H HALF_LINE_STYLE (c, low, ?H, opt)
          = (set_font (buildFontString HALF_LINE_STYLE m) c, f64 (real_of_int m + 1), ?H, real_of_int m)"
    unfolding search_step_f64_def
    using th
    by (simp add: Let_def m_def [symmetric] measureText_def tw f64_big HALF_LINE_STYLE_def
        DEFAULT_TEXT_STYLE_def)
  with l1 l2 show ?thesis by blast
qed

text \<open>
  C9 as stated ("terminates for every input") fails from \<open>2 ^ 53\<close> up, where
  \<^verbatim>\<open>mid + 1\<close> can round back to \<^verbatim>\<open>mid\<close>.  For a rectangle of width and height
  \<open>10 ^ 17\<close> (a double), the empty text and a line height of \<open>1/2\<close>, every candidate
  fits, so \<open>high\<close> stays \<open>10 ^ 17\<close> and \<open>low\<close> never exceeds it: the loop never
  exits, and \<^verbatim>\<open>calculateOptimalFontSize\<close> returns nothing.
\<close>

theorem search_f64_diverges:
  "f64 100000000000000000 = 100000000000000000
   \<and> search_loop_f64 half_em [] 100000000000000000 100000000000000000 HALF_LINE_STYLE
        (fresh_ctx, 4, max 100000000000000000 100000000000000000, 4) = None
   \<and> calculateOptimalFontSize_f64 half_em fresh_ctx [] 100000000000000000 100000000000000000
        HALF_LINE_STYLE = None"
proof -
  let ?H = "100000000000000000 :: real"
  let ?S = "{t. case t of (c, low, high, opt) \<Rightarrow> 4 \<le> low \<and> low \<le> ?H \<and> high = ?H}"
  have tr: "search_cond_f64 t
            \<and> search_step_f64 half_em [] ?H ?H HALF_LINE_STYLE t \<in> ?S" if "t \<in> ?S" for t
  proof -
    obtain c low high opt where t: "t = (c, low, high, opt)" by (cases t) auto
    with that have a: "4 \<le> low" "low \<le> ?H" "high = ?H" by simp_all
    from big_trap [OF a(1,2), of c opt] t a show ?thesis
      by (auto simp: search_cond_f64_def)
  qed
  have "(fresh_ctx, 4, ?H, 4) \<in> ?S" by simp
  from search_loop_f64_trapped [of ?S, OF tr this]
  have n: "search_loop_f64 half_em [] ?H ?H HALF_LINE_STYLE (fresh_ctx, 4, ?H, 4) = None" .
  then show ?thesis by (simp add: calculateOptimalFontSize_f64_def f64_big)
qed

subsection \<open>Fit bound\<close>



subsection \<open>Largest fitting size\<close>




subsection \<open>Monotonicity in the rectangle\<close>




section \<open>Rendering\<close>

subsection \<open>Style fields the steps do not read\<close>

lemma search_loop_cong:
  assumes "\<And>t. search_step mt tx mw mh style t = search_step mt tx mw mh style' t"
  shows "search_loop mt tx mw mh style s = search_loop mt tx mw mh style' s"
  using assms
proof (induction mt tx mw mh style s rule: search_loop.induct)
  case (1 mt tx mw mh style s)
  show ?case
  proof (cases "search_cond s")
    case True
    from "1.IH" [OF True "1.prems"] "1.prems" True show ?thesis
      by (subst (1 2) search_loop.simps) simp
  next
    case False
    then show ?thesis by (subst (1 2) search_loop.simps) simp
  qed
qed

lemma calculate_cong:
  assumes "fontStyle style' = fontStyle style" "fontWeight style' = fontWeight style"
    "fontFamily style' = fontFamily style" "letterSpacing style' = letterSpacing style"
    "lineHeight style' = lineHeight style"
  shows "calculateOptimalFontSize mt c tx mw mh style' = calculateOptimalFontSize mt c tx mw mh style"
proof -
  have "search_step mt tx mw mh style' t = search_step mt tx mw mh style t" for t
    using assms by (simp add: search_step_def buildFontString_def)
  then have "search_loop mt tx mw mh style' s = search_loop mt tx mw mh style s" for s
    by (rule search_loop_cong)
  then show ?thesis by (simp add: calculateOptimalFontSize_def)
qed

lemma calculate_transform_irrelevant:
  "calculateOptimalFontSize mt c tx mw mh (style\<lparr> textTransform := x \<rparr>)
     = calculateOptimalFontSize mt c tx mw mh style"
  by (rule calculate_cong) simp_all


lemma transform_irrelevant:
  "paint_setup (style\<lparr> textTransform := x \<rparr>) fs c = paint_setup style fs c"
  "apply_textShadow (style\<lparr> textTransform := x \<rparr>) c = apply_textShadow style c"
  "drawTextDecoration mt c tx px py fs (style\<lparr> textTransform := x \<rparr>)
     = drawTextDecoration mt c tx px py fs style"
  "displayText_of (style\<lparr> textTransform := TransformNone \<rparr>) tx = tx"
  by (simp_all add: paint_setup_def buildFontString_def apply_textShadow_def
      drawTextDecoration_def displayText_of_def)

lemma draw_transform_first:
  "drawTextOnCanvas mt c s area sx sy =
     drawTextOnCanvas mt c (displayText_of (area_style area) s)
       (area\<lparr> area_style := (area_style area)\<lparr> textTransform := TransformNone \<rparr> \<rparr>) sx sy"
  unfolding drawTextOnCanvas_def Let_def
  by (simp add: transform_irrelevant calculate_transform_irrelevant split: prod.split)



subsection \<open>Text transformation\<close>

lemma length_capitalize_from: "length (capitalize_from prev s) = length s"
  by (induction s arbitrary: prev) auto

lemma capitalize_from_nth:
  "i < length s \<Longrightarrow>
     capitalize_from prev s ! i =
       (if is_word_char (s ! i) \<and> \<not> (if i = 0 then prev else is_word_char (s ! (i - 1)))
        then toUpperCase_char (s ! i) else s ! i)"
proof (induction s arbitrary: prev i)
  case Nil
  then show ?case by simp
next
  case (Cons ch rest)
  show ?case
  proof (cases i)
    case 0
    then show ?thesis by simp
  next
    case (Suc j)
    with Cons.prems have "j < length rest" by simp
    from Cons.IH [OF this, of "is_word_char ch"] Suc show ?thesis
      by (cases j) simp_all
  qed
qed

text \<open>
  C7.  The \<^verbatim>\<open>capitalize\<close> transform keeps the length of the string, replaces the
  first character of every run of word characters by its upper-case form and leaves
  every other character unchanged; it maps \<open>mary-anne o'connor\<close> to
  \<open>Mary-Anne O'Connor\<close>.  \<^verbatim>\<open>uppercase\<close> and \<^verbatim>\<open>lowercase\<close> map the case of
  every character of the string, \<^verbatim>\<open>none\<close> leaves it unchanged.  The transform comes
  before measuring and painting: rendering a text under a transform is rendering the
  transformed text under no transform.  The case mappings are the ones of the alphabet:
  upper-casing sends \<open>a\<close>, ..., \<open>z\<close> to \<open>A\<close>, ..., \<open>Z\<close>, lower-casing sends them
  back, and each leaves every other character of the Basic Latin block as it is; so
  \<open>Mary-Anne O'Connor 3rd\<close> becomes \<open>MARY-ANNE O'CONNOR 3RD\<close> under
  \<^verbatim>\<open>uppercase\<close> and \<open>mary-anne o'connor 3rd\<close> under \<^verbatim>\<open>lowercase\<close>.
\<close>

theorem transform_correct:
  "length (capitalize s) = length s
   \<and> (\<forall>i < length s.
         capitalize s ! i = (if run_start s i then toUpperCase_char (s ! i) else s ! i))
   \<and> capitalize ''mary-anne o'connor'' = ''Mary-Anne O'Connor''
   \<and> displayText_of (style\<lparr> textTransform := Capitalize \<rparr>) s = capitalize s
   \<and> displayText_of (style\<lparr> textTransform := Uppercase \<rparr>) s = map toUpperCase_char s
   \<and> displayText_of (style\<lparr> textTransform := Lowercase \<rparr>) s = map toLowerCase_char s
   \<and> displayText_of (style\<lparr> textTransform := TransformNone \<rparr>) s = s
   \<and> drawTextOnCanvas mt c s area sx sy
       = drawTextOnCanvas mt c (displayText_of (area_style area) s)
           (area\<lparr> area_style := (area_style area)\<lparr> textTransform := TransformNone \<rparr> \<rparr>) sx sy
   \<and> map toUpperCase_char ''abcdefghijklmnopqrstuvwxyz'' = ''ABCDEFGHIJKLMNOPQRSTUVWXYZ''
   \<and> map toLowerCase_char ''ABCDEFGHIJKLMNOPQRSTUVWXYZ'' = ''abcdefghijklmnopqrstuvwxyz''
   \<and> (basic_latin ch \<and> ch \<notin> set ''abcdefghijklmnopqrstuvwxyz'' \<longrightarrow> toUpperCase_char ch = ch)
   \<and> (basic_latin ch \<and> ch \<notin> set ''ABCDEFGHIJKLMNOPQRSTUVWXYZ'' \<longrightarrow> toLowerCase_char ch = ch)
   \<and> displayText_of (style\<lparr> textTransform := Uppercase \<rparr>) ''Mary-Anne O'Connor 3rd''
       = ''MARY-ANNE O'CONNOR 3RD''
   \<and> displayText_of (style\<lparr> textTransform := Lowercase \<rparr>) ''Mary-Anne O'Connor 3rd''
       = ''mary-anne o'connor 3rd''"
proof (intro conjI allI impI)
  show "length (capitalize s) = length s" by (simp add: capitalize_def length_capitalize_from)
  show "capitalize s ! i = (if run_start s i then toUpperCase_char (s ! i) else s ! i)"
    if "i < length s" for i
    using capitalize_from_nth [OF that, of False] by (auto simp: capitalize_def run_start_def)
  show "capitalize ''mary-anne o'connor'' = ''Mary-Anne O'Connor''"
    by (simp add: capitalize_def is_word_char_def toUpperCase_char_def)
  show "drawTextOnCanvas mt c s area sx sy
       = drawTextOnCanvas mt c (displayText_of (area_style area) s)
           (area\<lparr> area_style := (area_style area)\<lparr> textTransform := TransformNone \<rparr> \<rparr>) sx sy"
    by (rule draw_transform_first)
  show "map toUpperCase_char ''abcdefghijklmnopqrstuvwxyz'' = ''ABCDEFGHIJKLMNOPQRSTUVWXYZ''"
    by (simp add: toUpperCase_char_def)
  show "map toLowerCase_char ''ABCDEFGHIJKLMNOPQRSTUVWXYZ'' = ''abcdefghijklmnopqrstuvwxyz''"
    by (simp add: toLowerCase_char_def)
  show "toUpperCase_char ch = ch"
    if "basic_latin ch \<and> ch \<notin> set ''abcdefghijklmnopqrstuvwxyz''"
    using that by (simp add: toUpperCase_char_def)
  show "toLowerCase_char ch = ch"
    if "basic_latin ch \<and> ch \<notin> set ''ABCDEFGHIJKLMNOPQRSTUVWXYZ''"
    using that by (simp add: toLowerCase_char_def)
  show "displayText_of (style\<lparr> textTransform := Uppercase \<rparr>) ''Mary-Anne O'Connor 3rd''
       = ''MARY-ANNE O'CONNOR 3RD''"
    by (simp add: displayText_of_def toUpperCase_def toUpperCase_char_def)
  show "displayText_of (style\<lparr> textTransform := Lowercase \<rparr>) ''Mary-Anne O'Connor 3rd''
       = ''mary-anne o'connor 3rd''"
    by (simp add: displayText_of_def toLowerCase_def toLowerCase_char_def)
qed (simp_all add: displayText_of_def toUpperCase_def toLowerCase_def)

text \<open>
  In \<open>mary-anne o'connor\<close> position 5 (the \<open>a\<close> after the hyphen) starts a run and is
  capitalised; position 6 does not and stays.  The hyphen is no letter, and both case
  mappings keep it; the sample name is mapped to upper and to lower case throughout.
\<close>

theorem transform_correct_witness:
  "(5::nat) < length ''mary-anne o'connor'' \<and> run_start ''mary-anne o'connor'' 5
   \<and> capitalize ''mary-anne o'connor'' ! 5 = CHR ''A''
   \<and> \<not> run_start ''mary-anne o'connor'' 6 \<and> capitalize ''mary-anne o'connor'' ! 6 = CHR ''n''
   \<and> basic_latin CHR ''-''
   \<and> CHR ''-'' \<notin> set ''abcdefghijklmnopqrstuvwxyz'' \<and> toUpperCase_char CHR ''-'' = CHR ''-''
   \<and> CHR ''-'' \<notin> set ''ABCDEFGHIJKLMNOPQRSTUVWXYZ'' \<and> toLowerCase_char CHR ''-'' = CHR ''-''
   \<and> displayText_of (DEFAULT_TEXT_STYLE\<lparr> textTransform := Uppercase \<rparr>) ''Mary-Anne O'Connor 3rd''
       = ''MARY-ANNE O'CONNOR 3RD''
   \<and> displayText_of (DEFAULT_TEXT_STYLE\<lparr> textTransform := Lowercase \<rparr>) ''Mary-Anne O'Connor 3rd''
       = ''mary-anne o'connor 3rd''"
proof -
  have a: "(5::nat) < length ''mary-anne o'connor''" "(6::nat) < length ''mary-anne o'connor''"
    by simp_all
  have r: "run_start ''mary-anne o'connor'' 5" "\<not> run_start ''mary-anne o'connor'' 6"
    by (simp_all add: run_start_def is_word_char_def)
  have b: "basic_latin CHR ''-''" "CHR ''-'' \<notin> set ''abcdefghijklmnopqrstuvwxyz''"
    "CHR ''-'' \<notin> set ''ABCDEFGHIJKLMNOPQRSTUVWXYZ''"
    by (simp_all add: basic_latin_def)
  note t = transform_correct [where s = "''mary-anne o'connor''" and ch = "CHR ''-''"
      and style = DEFAULT_TEXT_STYLE]
  from t a
  have "capitalize ''mary-anne o'connor'' ! 5
          = (if run_start ''mary-anne o'connor'' 5 then toUpperCase_char (''mary-anne o'connor'' ! 5)
             else ''mary-anne o'connor'' ! 5)"
    and "capitalize ''mary-anne o'connor'' ! 6
          = (if run_start ''mary-anne o'connor'' 6 then toUpperCase_char (''mary-anne o'connor'' ! 6)
             else ''mary-anne o'connor'' ! 6)"
    by blast+
  with r a have c: "capitalize ''mary-anne o'connor'' ! 5 = CHR ''A''"
    "capitalize ''mary-anne o'connor'' ! 6 = CHR ''n''"
    by (simp_all add: toUpperCase_char_def)
  from t b have k: "toUpperCase_char CHR ''-'' = CHR ''-''" "toLowerCase_char CHR ''-'' = CHR ''-''"
    by blast+
  from t have d: "displayText_of (DEFAULT_TEXT_STYLE\<lparr> textTransform := Uppercase \<rparr>)
                    ''Mary-Anne O'Connor 3rd'' = ''MARY-ANNE O'CONNOR 3RD''"
    "displayText_of (DEFAULT_TEXT_STYLE\<lparr> textTransform := Lowercase \<rparr>)
                    ''Mary-Anne O'Connor 3rd'' = ''mary-anne o'connor 3rd''"
    by blast+
  show ?thesis by (intro conjI a(1) r c b k d)
qed

subsection \<open>Letter spacing\<close>

lemma totalWidth_foldl:
  "foldl (\<lambda>totalWidth ch. totalWidth + (measureText mt c ch + spacing)) a (map (\<lambda>ch. [ch]) xs)
     = a + (\<Sum>ch\<leftarrow>xs. measureText mt c [ch]) + real (length xs) * spacing"
proof (induction xs arbitrary: a)
  case Nil
  show ?case by simp
next
  case (Cons x xs)
  have "foldl (\<lambda>totalWidth ch. totalWidth + (measureText mt c ch + spacing)) a
          (map (\<lambda>ch. [ch]) (x # xs))
        = a + (measureText mt c [x] + spacing) + (\<Sum>ch\<leftarrow>xs. measureText mt c [ch])
            + real (length xs) * spacing"
    by (simp add: Cons.IH)
  also have "\<dots> = a + (\<Sum>ch\<leftarrow>x # xs. measureText mt c [ch]) + real (length (x # xs)) * spacing"
    by (simp add: algebra_simps)
  finally show ?case .
qed

lemma totalWidth_formula:
  "letterSpacing_totalWidth mt c (map (\<lambda>ch. [ch]) xs) spacing
     = (\<Sum>ch\<leftarrow>xs. measureText mt c [ch]) + (real (length xs) - 1) * spacing"
  unfolding letterSpacing_totalWidth_def totalWidth_foldl by (simp add: algebra_simps)

lemma place_chars:
  "foldl (place_char mt py spacing) (c, cx) (map (\<lambda>ch. [ch]) xs) =
     (c\<lparr> c_painted := c_painted c @
            map (\<lambda>i. FillText (c_state c) [xs ! i]
                        (cx + (\<Sum>ch\<leftarrow>take i xs. measureText mt c [ch] + spacing)
                            + measureText mt c [xs ! i] / 2) py)
                [0..<length xs] \<rparr>,
      cx + (\<Sum>ch\<leftarrow>xs. measureText mt c [ch] + spacing))"
proof (induction xs rule: rev_induct)
  case Nil
  show ?case by simp
next
  case (snoc x xs)
  let ?G = "\<lambda>ys i. FillText (c_state c) [ys ! i]
                        (cx + (\<Sum>ch\<leftarrow>take i ys. measureText mt c [ch] + spacing)
                            + measureText mt c [ys ! i] / 2) py"
  have m: "measureText mt (c\<lparr> c_painted := p \<rparr>) t = measureText mt c t" for p t
    by (simp add: measureText_def)
  have e: "map (?G (xs @ [x])) [0..<length (xs @ [x])]
         = map (?G xs) [0..<length xs]
           @ [FillText (c_state c) [x]
                (cx + (\<Sum>ch\<leftarrow>xs. measureText mt c [ch] + spacing) + measureText mt c [x] / 2) py]"
    by (simp add: nth_append cong: map_cong)
  have "foldl (place_char mt py spacing) (c, cx) (map (\<lambda>ch. [ch]) (xs @ [x]))
        = place_char mt py spacing
            (foldl (place_char mt py spacing) (c, cx) (map (\<lambda>ch. [ch]) xs)) [x]"
    by simp
  also have "\<dots> = place_char mt py spacing
       (c\<lparr> c_painted := c_painted c @ map (?G xs) [0..<length xs] \<rparr>,
        cx + (\<Sum>ch\<leftarrow>xs. measureText mt c [ch] + spacing)) [x]"
    by (simp only: snoc.IH)
  also have "\<dots> = (c\<lparr> c_painted := c_painted c @ (map (?G xs) [0..<length xs]
           @ [FillText (c_state c) [x]
                (cx + (\<Sum>ch\<leftarrow>xs. measureText mt c [ch] + spacing) + measureText mt c [x] / 2) py]) \<rparr>,
        cx + (\<Sum>ch\<leftarrow>xs. measureText mt c [ch] + spacing) + (measureText mt c [x] + spacing))"
    by (simp add: place_char_def Let_def m fillText_def)
  also have "\<dots> = (c\<lparr> c_painted := c_painted c @ map (?G (xs @ [x])) [0..<length (xs @ [x])] \<rparr>,
        cx + (\<Sum>ch\<leftarrow>xs @ [x]. measureText mt c [ch] + spacing))"
    unfolding e by simp
  finally show ?case .
qed

lemma letter_spacing_painted:
  "c_painted (drawTextWithLetterSpacing mt c s px py spacing) =
     c_painted c @
       map (\<lambda>i. FillText (c_state c) [s ! i]
                   (px - ((\<Sum>ch\<leftarrow>s. measureText mt c [ch]) + (real (length s) - 1) * spacing) / 2
                       + (\<Sum>ch\<leftarrow>take i s. measureText mt c [ch] + spacing)
                       + measureText mt c [s ! i] / 2) py)
           [0..<length s]"
  unfolding drawTextWithLetterSpacing_def Let_def place_chars totalWidth_formula by simp

text \<open>
  C6.  For a string of \<open>n\<close> characters and any letter spacing, the total width computed
  by \<^verbatim>\<open>drawTextWithLetterSpacing\<close> is the sum of the \<open>n\<close> measured character widths
  plus \<open>(n - 1) \<times> letterSpacing\<close>; and the glyphs are painted from
  \<open>x - totalWidth / 2\<close> on, glyph \<open>i\<close> centred half its own width after the advances of
  the glyphs before it, each advance being that glyph's measured width plus
  \<open>letterSpacing\<close>.
\<close>

theorem letter_spacing_layout:
  "letterSpacing_totalWidth mt c (map (\<lambda>ch. [ch]) text) spacing
     = (\<Sum>ch\<leftarrow>text. measureText mt c [ch]) + (real (length text) - 1) * spacing
   \<and> c_painted (drawTextWithLetterSpacing mt c text px py spacing)
     = c_painted c @
         map (\<lambda>i. FillText (c_state c) [text ! i]
                (px - letterSpacing_totalWidth mt c (map (\<lambda>ch. [ch]) text) spacing / 2
                    + (\<Sum>ch\<leftarrow>take i text. measureText mt c [ch] + spacing)
                    + measureText mt c [text ! i] / 2) py)
             [0..<length text]"
  by (simp add: totalWidth_formula letter_spacing_painted)

subsection \<open>Text shadow\<close>













section \<open>Batch generation\<close>

lemma generate_body_skip:
  assumes "\<not> yields_record h names i"
  shows "generate_body h img iw ih names areas onProgress i (results, s) = Inr (results, s)"
  using assms by (auto simp: generate_body_def yields_record_def Let_def)

lemma generate_body_record:
  assumes "yields_record h names i" and "\<forall>cv. h_toBlob h cv \<noteq> None"
  shows "\<exists>r. generate_body h img iw ih names areas onProgress i (results, s)
               = Inr (results @ [r], notify onProgress (length names) s i)
             \<and> gi_name r = trim (names ! i)"
proof -
  let ?cv = "\<lparr> cv_width = iw, cv_height = ih,
               cv_ctx = foldl (\<lambda>c area. drawTextOnCanvas (h_measure h) c (trim (names ! i)) area 1 1)
                          (drawImage img 0 0 iw ih fresh_ctx) areas \<rparr>"
  from assms(2) obtain b where b: "h_toBlob h ?cv = Some b" by auto
  with assms(1) show ?thesis
    by (cases onProgress) (simp_all add: generate_body_def yields_record_def Let_def notify_def)
qed

lemma generate_loop_run:
  assumes "\<forall>cv. h_toBlob h cv \<noteq> None"
  shows "\<exists>R. generate_loop h img iw ih names areas onProgress i st
              = (Inr (fst st @ R),
                 foldl (notify onProgress (length names)) (snd st)
                   (filter (yields_record h names) [i..<length names]))
            \<and> map gi_name R
                = map (\<lambda>j. trim (names ! j)) (filter (yields_record h names) [i..<length names])"
  using assms
proof (induction h img iw ih names areas onProgress i st rule: generate_loop.induct)
  case (1 h img iw ih names areas onProgress i st)
  obtain results s where st: "st = (results, s)" by (cases st)
  show ?case
  proof (cases "i < length names")
    case False
    then show ?thesis by (subst generate_loop.simps) simp
  next
    case True
    then have u: "[i..<length names] = i # [i + 1..<length names]" by (simp add: upt_conv_Cons)
    show ?thesis
    proof (cases "yields_record h names i")
      case False
      have b: "generate_body h img iw ih names areas onProgress i st = Inr st"
        unfolding st by (rule generate_body_skip [OF False])
      from "1.IH" [OF True b "1.prems"] obtain R where
        "generate_loop h img iw ih names areas onProgress (i + 1) st
              = (Inr (fst st @ R),
                 foldl (notify onProgress (length names)) (snd st)
                   (filter (yields_record h names) [i + 1..<length names]))"
        "map gi_name R
                = map (\<lambda>j. trim (names ! j)) (filter (yields_record h names) [i + 1..<length names])"
        by blast
      with True False b show ?thesis
        by (subst generate_loop.simps) (simp add: u)
    next
      case y: True
      from generate_body_record [OF y "1.prems", of img iw ih areas onProgress results s]
      obtain r where b: "generate_body h img iw ih names areas onProgress i st
               = Inr (results @ [r], notify onProgress (length names) s i)"
        and r: "gi_name r = trim (names ! i)" unfolding st by blast
      from "1.IH" [OF True b "1.prems"] obtain R where
        "generate_loop h img iw ih names areas onProgress (i + 1)
             (results @ [r], notify onProgress (length names) s i)
              = (Inr ((results @ [r]) @ R),
                 foldl (notify onProgress (length names)) (notify onProgress (length names) s i)
                   (filter (yields_record h names) [i + 1..<length names]))"
        "map gi_name R
                = map (\<lambda>j. trim (names ! j)) (filter (yields_record h names) [i + 1..<length names])"
        by auto
      with True y b r st have
        "generate_loop h img iw ih names areas onProgress i st
              = (Inr (fst st @ (r # R)),
                 foldl (notify onProgress (length names)) (snd st)
                   (filter (yields_record h names) [i..<length names]))
            \<and> map gi_name (r # R)
                = map (\<lambda>j. trim (names ! j)) (filter (yields_record h names) [i..<length names])"
        by (subst generate_loop.simps) (simp add: u)
      then show ?thesis by blast
    qed
  qed
qed

lemma generateImages_run:
  assumes "h_loadImage h url \<noteq> None" and "\<forall>cv. h_toBlob h cv \<noteq> None"
  shows "\<exists>R. generateImages h url iw ih names areas onProgress s
              = (Inr R,
                 foldl (notify onProgress (length names)) s
                   (filter (yields_record h names) [0..<length names]))
            \<and> map gi_name R
                = map (\<lambda>j. trim (names ! j)) (filter (yields_record h names) [0..<length names])"
proof -
  from assms(1) obtain img where i: "h_loadImage h url = Some img" by auto
  from generate_loop_run [OF assms(2), of img iw ih names areas onProgress 0 "([], s)"]
  show ?thesis by (simp add: generateImages_def i)
qed

lemma foldl_record_progress:
  "foldl (notify (Some record_progress) n) calls js = calls @ map (\<lambda>j. (j + 1, n)) js"
  by (induction js arbitrary: calls) (simp_all add: notify_def record_progress_def)


lemma notify_Some: "notify (Some f) n = (\<lambda>s j. f (j + 1) n s)"
  by (intro ext) (simp add: notify_def)


subsection \<open>Progress reports\<close>

text \<open>
  The claim C3 as stated fails: a blank name takes the \<^verbatim>\<open>continue\<close> before the
  call of \<^verbatim>\<open>onProgress\<close>.  For the names \<open>Alice\<close>, two spaces, the empty string and
  \<open>Bob\<close> the callback is invoked twice, with (1, 4) and (4, 4), not four times.
\<close>

theorem progress_counterexample:
  "snd (generateImages sample_host ''data:x'' 300 100 [''Alice'', ''  '', '''', ''Bob'']
          [sample_area] (Some record_progress) []) = [(1, 4), (4, 4)]
   \<and> [(1, 4), (4, 4)] \<noteq> [(1, 4), (2, 4), (3, 4), (4::nat, 4::nat)]"
  by code_simp

text \<open>
  C3 (amended).  When the image decodes and every blob is encoded, \<^verbatim>\<open>generateImages\<close>
  invokes a supplied \<^verbatim>\<open>onProgress\<close> exactly once for each name that gets an output
  record (not blank after trimming, context obtained), in input order, with arguments
  \<open>(index + 1, totalNames)\<close>, and not for any other name: the state of the caller at
  the end is the one these calls produce in turn, and a recording callback has
  recorded exactly these pairs.
\<close>

theorem progress_per_record:
  assumes "h_loadImage h url \<noteq> None" and "\<forall>cv. h_toBlob h cv \<noteq> None"
  shows "snd (generateImages h url iw ih names areas (Some f) s)
           = foldl (\<lambda>s j. f (j + 1) (length names) s) s
               (filter (yields_record h names) [0..<length names])
         \<and> snd (generateImages h url iw ih names areas (Some record_progress) [])
           = map (\<lambda>j. (j + 1, length names)) (filter (yields_record h names) [0..<length names])"
proof
  from generateImages_run [OF assms, of iw ih names areas "Some f" s]
  show "snd (generateImages h url iw ih names areas (Some f) s)
           = foldl (\<lambda>s j. f (j + 1) (length names) s) s
               (filter (yields_record h names) [0..<length names])"
    by (auto simp: notify_Some)
  from generateImages_run [OF assms, of iw ih names areas "Some record_progress" "[]"]
  show "snd (generateImages h url iw ih names areas (Some record_progress) [])
           = map (\<lambda>j. (j + 1, length names)) (filter (yields_record h names) [0..<length names])"
    by (auto simp: foldl_record_progress)
qed

text \<open>The four names above: the calls recorded are (1, 4) and (4, 4).\<close>

theorem progress_per_record_witness:
  "h_loadImage sample_host ''data:x'' \<noteq> None \<and> (\<forall>cv. h_toBlob sample_host cv \<noteq> None)
   \<and> snd (generateImages sample_host ''data:x'' 300 100 [''Alice'', ''  '', '''', ''Bob'']
            [sample_area] (Some record_progress) []) = [(1, 4), (4, 4)]"
proof -
  have a: "h_loadImage sample_host ''data:x'' \<noteq> None" by (simp add: sample_host_def)
  have b: "\<forall>cv. h_toBlob sample_host cv \<noteq> None" by (simp add: sample_host_def)
  have f: "filter (yields_record sample_host [''Alice'', ''  '', '''', ''Bob''])
             [0..<length [''Alice'', ''  '', '''', ''Bob'']] = [0, 3]"
    by code_simp
  note t = progress_per_record [OF a b, of 300 100 "[''Alice'', ''  '', '''', ''Bob'']" "[sample_area]"
      record_progress "[]"]
  from t have "snd (generateImages sample_host ''data:x'' 300 100 [''Alice'', ''  '', '''', ''Bob'']
            [sample_area] (Some record_progress) [])
        = map (\<lambda>j. (j + 1, length [''Alice'', ''  '', '''', ''Bob''])) [0, 3]"
    unfolding f by (rule conjunct2)
  also have "\<dots> = [(1, 4), (4, 4)]" by simp
  finally show ?thesis using a b by blast
qed

subsection \<open>Output records\<close>



subsection \<open>A canvas without a 2D context\<close>

text \<open>
  C10.  If no 2D context is obtained for the canvas of a non-blank name, the iteration
  for that name appends no record, raises no error and does not invoke
  \<^verbatim>\<open>onProgress\<close> (results and caller state are unchanged, whatever the callback),
  and the loop goes on with the remaining names.
\<close>

theorem context_unavailable_skips:
  assumes "i < length names" and "trim (names ! i) \<noteq> []" and "\<not> h_getContext h i"
  shows "generate_body h img iw ih names areas onProgress i (results, s) = Inr (results, s)
         \<and> generate_loop h img iw ih names areas onProgress i (results, s)
             = generate_loop h img iw ih names areas onProgress (i + 1) (results, s)"
proof -
  from assms(3) have n: "\<not> yields_record h names i" by (simp add: yields_record_def)
  have b: "generate_body h img iw ih names areas onProgress i (results, s) = Inr (results, s)"
    by (rule generate_body_skip [OF n])
  with assms(1) show ?thesis by (subst generate_loop.simps) simp
qed

text \<open>
  With a host that refuses the context of the second canvas, \<open>Alice\<close>, \<open>Bob\<close>,
  \<open>Carol\<close> give the records \<open>Alice\<close> and \<open>Carol\<close> and the progress calls (1, 3)
  and (3, 3).
\<close>

theorem context_unavailable_skips_witness:
  "(1::nat) < length [''Alice'', ''Bob'', ''Carol''] \<and> trim ([''Alice'', ''Bob'', ''Carol''] ! 1) \<noteq> []
   \<and> \<not> h_getContext flaky_host 1
   \<and> generate_body flaky_host (Image ''data:x'') 300 100 [''Alice'', ''Bob'', ''Carol''] [sample_area]
        (Some record_progress) 1 ([], [(1, 3)]) = Inr ([], [(1, 3)])
   \<and> map gi_name (projr (fst (generateImages flaky_host ''data:x'' 300 100 [''Alice'', ''Bob'', ''Carol'']
                                [sample_area] (Some record_progress) []))) = [''Alice'', ''Carol'']
   \<and> snd (generateImages flaky_host ''data:x'' 300 100 [''Alice'', ''Bob'', ''Carol'']
            [sample_area] (Some record_progress) []) = [(1, 3), (3, 3)]"
proof -
  have a: "(1::nat) < length [''Alice'', ''Bob'', ''Carol'']" by simp
  have b: "trim ([''Alice'', ''Bob'', ''Carol''] ! 1) \<noteq> []" by (simp add: trim_def is_space_def)
  have c: "\<not> h_getContext flaky_host 1" by (simp add: flaky_host_def)
  have d: "map gi_name (projr (fst (generateImages flaky_host ''data:x'' 300 100 [''Alice'', ''Bob'', ''Carol'']
                                [sample_area] (Some record_progress) []))) = [''Alice'', ''Carol'']"
    by code_simp
  have e: "snd (generateImages flaky_host ''data:x'' 300 100 [''Alice'', ''Bob'', ''Carol'']
            [sample_area] (Some record_progress) []) = [(1, 3), (3, 3)]"
    by code_simp
  from context_unavailable_skips [OF a b c, of "Image ''data:x''" 300 100 "[sample_area]"
      "Some record_progress" "[]" "[(1, 3)]"] a b c d e
  show ?thesis by blast
qed

end
